theory Spec2Isabelle
  imports Complex_Main "HOL-Library.Sublist"
begin

section \<open>Values of the automatic-differentiation layer\<close>

text \<open>
  The wrapped function \<open>maximum\<close> of the AD package receives, for each argument, either an
  \<open>AdArray\<close> (a value with a Jacobian) or a plain numeric value. A numeric value is a
  Python number (\<open>float\<close> or \<open>int\<close>) or a one-dimensional \<open>numpy.ndarray\<close>, whose
  element type is \<open>int64\<close> or \<open>float64\<close>. The element type matters to \<open>maximum\<close>: a copy
  of an array keeps the element type, and an assignment into an array converts what is
  assigned to the element type of the array.

  A floating-point number is modelled by the real number it stands for (NaN and the
  infinities are not numbers of the model), and so is an entry of an array, which in an
  array of integers is a whole number. Python integers are unbounded; numpy keeps those
  that fit 64 bits as \<open>int64\<close>, which is the range the model is meant for.
\<close>

datatype dtype = int64 | float64

datatype number = PyInt int | PyFloat real

datatype ndvalue = Scalar number | Array dtype "real list"

text \<open>
  A matrix is its list of rows together with its number of columns (which a matrix with no
  rows still has); its entries are floating-point numbers. A Jacobian is a scipy sparse matrix in some storage format, a dense
  two-dimensional array, or a Python number (\<open>AdArray(val, 0)\<close>). Of the storage
  formats only CSR and CSC are told apart by \<open>maximum\<close>; \<open>COO\<close> stands for every other one.
\<close>

datatype spformat = CSR | CSC | COO

record matrix =
  ncols :: nat
  rows :: "real list list"

datatype jacobian = is_Number: Number real | Sparse spformat matrix | Dense matrix

record AdArray =
  val :: ndvalue
  jac :: jacobian

text \<open>What \<open>isinstance(var, AdArray)\<close> distinguishes.\<close>

datatype operand = is_Ad: Ad AdArray | Plain ndvalue

text \<open>
  The ways in which a call can raise: \<open>NoAttribute\<close> is the AttributeError of \<open>.shape\<close> or
  \<open>.tocsr()\<close> on an object that has none, \<open>BroadcastError\<close> the ValueError of numpy for
  shapes that cannot be broadcast, \<open>IndexOutOfBounds\<close> the IndexError of an index array
  that reaches beyond an axis, \<open>ShapeMismatch\<close> a row block that does not fit the matrix
  it is merged into, \<open>NotSubscriptable\<close> the TypeError of indexing a number,
  \<open>NotAssignable\<close> the rejection of a sparse block assigned into a dense array,
  \<open>AssertionFailed\<close> a failed \<open>assert\<close>, and \<open>WrongArity\<close> the TypeError of a call with
  the wrong number of arguments. \<open>BadReference\<close> belongs to the object-level model below:
  a reference that does not hold an object of the kind it is used as, which no Python
  value is. The remaining ones are raised by the degree-of-freedom bookkeeping:
  \<open>KeyError\<close> carries the variable name, the \<open>from_iterate\<close> flag and the grid of its
  message, \<open>UnboundLocalError\<close> is the use of a local variable that was never assigned.
\<close>

datatype failure =
    NoAttribute
  | BroadcastError
  | IndexOutOfBounds
  | ShapeMismatch
  | NotSubscriptable
  | NotAssignable
  | AssertionFailed
  | WrongArity
  | BadReference
  | KeyError string bool nat
  | UnboundLocalError
  | DuplicateRegistration string nat
  | MissingVariableValue string nat
  | DimensionMismatch

definition and_then :: "failure + 'a \<Rightarrow> ('a \<Rightarrow> failure + 'b) \<Rightarrow> failure + 'b" where
  "and_then m f = (case m of Inl e \<Rightarrow> Inl e | Inr x \<Rightarrow> f x)"

section \<open>Conversions between the element types\<close>

text \<open>
  \<open>float64\<close> has a mantissa of 53 bits. An integer of magnitude below \<open>2 ^ 53\<close> is a
  floating-point number; a larger one is converted to the nearest floating-point number,
  a tie going to the one with even mantissa. \<open>spacing a\<close> is the distance between
  neighbouring floating-point numbers at the magnitude of \<open>a\<close>.
\<close>

function spacing :: "nat \<Rightarrow> nat" where
  "spacing a = (if a < 2 ^ 53 then 1 else 2 * spacing (a div 2))"
  by pat_completeness auto
termination
  by (relation "measure id") auto

declare spacing.simps [simp del]

definition nearest_even :: "nat \<Rightarrow> nat" where
  "nearest_even a =
     (let q = spacing a; m = a div q; r = a mod q
      in if q < 2 * r \<or> (2 * r = q \<and> odd m) then (m + 1) * q else m * q)"

definition float64_of_int :: "int \<Rightarrow> real" where
  "float64_of_int n =
     (if n < 0 then - real (nearest_even (nat (- n))) else real (nearest_even (nat n)))"

text \<open>
  The conversion of a floating-point number to an integer drops the fraction (it rounds
  towards zero). Its result for a number beyond the range of \<open>int64\<close> depends on the
  machine and is not modelled.
\<close>

definition int64_of_float :: "real \<Rightarrow> int" where
  "int64_of_float x = (if 0 \<le> x then \<lfloor>x\<rfloor> else \<lceil>x\<rceil>)"

text \<open>\<open>astype src dst\<close> converts an entry of an array of type \<open>src\<close> to the type \<open>dst\<close>.\<close>

definition astype :: "dtype \<Rightarrow> dtype \<Rightarrow> real \<Rightarrow> real" where
  "astype src dst x =
     (if src = dst then x
      else (case dst of
              float64 \<Rightarrow> float64_of_int \<lfloor>x\<rfloor>
            | int64 \<Rightarrow> of_int (int64_of_float x)))"

text \<open>
  The element type of the result of a binary operation: that of the operands if they
  agree, and \<open>float64\<close> otherwise. A Python number next to an array is a weak operand: an
  \<open>int\<close> takes the array's type, and a \<open>float\<close> makes the result \<open>float64\<close>.
\<close>

definition result_type :: "dtype \<Rightarrow> dtype \<Rightarrow> dtype" where
  "result_type s t = (if s = t then s else float64)"

definition weak_type :: "number \<Rightarrow> dtype \<Rightarrow> dtype" where
  "weak_type c t = (case c of PyInt _ \<Rightarrow> t | PyFloat _ \<Rightarrow> float64)"

definition as_float64 :: "number \<Rightarrow> real" where
  "as_float64 c = (case c of PyInt i \<Rightarrow> float64_of_int i | PyFloat x \<Rightarrow> x)"

definition number_as :: "dtype \<Rightarrow> number \<Rightarrow> real" where
  "number_as t c =
     (case t of
        float64 \<Rightarrow> as_float64 c
      | int64 \<Rightarrow> (case c of PyInt i \<Rightarrow> of_int i | PyFloat x \<Rightarrow> of_int (int64_of_float x)))"

text \<open>
  The number itself, whatever its type, and whether the conversion to \<open>float64\<close> leaves
  it as it is: every \<open>float\<close>, and every \<open>int\<close> of magnitude up to \<open>2 ^ 53\<close>.
\<close>

definition number_value :: "number \<Rightarrow> real" where
  "number_value c = (case c of PyInt i \<Rightarrow> of_int i | PyFloat x \<Rightarrow> x)"

definition fits_float64 :: "number \<Rightarrow> bool" where
  "fits_float64 c = (case c of PyInt i \<Rightarrow> \<bar>i\<bar> \<le> 2 ^ 53 | PyFloat _ \<Rightarrow> True)"

section \<open>The numpy and scipy operations used by \<open>maximum\<close>\<close>

text \<open>
  Elementwise binary operations on one-dimensional arrays broadcast: equal lengths pair
  up, an array of length one is stretched to the other's length, anything else raises.
\<close>

definition broadcast2 :: "(real \<Rightarrow> real \<Rightarrow> 'a) \<Rightarrow> real list \<Rightarrow> real list \<Rightarrow> failure + 'a list" where
  "broadcast2 f xs ys =
     (if length xs = length ys then Inr (map2 f xs ys)
      else if length xs = 1 then Inr (map (f (hd xs)) ys)
      else if length ys = 1 then Inr (map (\<lambda>x. f x (hd ys)) xs)
      else Inl BroadcastError)"

text \<open>
  The maximum of two Python numbers as numpy takes it, in \<open>np.maximum(x, y)\<close> and in
  \<open>np.max([x, y])\<close>: two integers stay integers, and otherwise both are converted to
  \<open>float64\<close> first.
\<close>

definition scalar_max :: "number \<Rightarrow> number \<Rightarrow> number" where
  "scalar_max x y =
     (case x of
        PyInt i \<Rightarrow>
          (case y of
             PyInt j \<Rightarrow> PyInt (max i j)
           | PyFloat v \<Rightarrow> PyFloat (max (float64_of_int i) v))
      | PyFloat u \<Rightarrow> PyFloat (max u (as_float64 y)))"

text \<open>\<open>np.max(vals)\<close> for the list of the two values, both Python numbers.\<close>

definition np_max :: "number \<Rightarrow> number \<Rightarrow> number" where
  "np_max x y = scalar_max x y"

text \<open>\<open>np.maximum\<close> on plain values.\<close>

fun np_maximum :: "ndvalue \<Rightarrow> ndvalue \<Rightarrow> failure + ndvalue" where
  "np_maximum (Scalar x) (Scalar y) = Inr (Scalar (scalar_max x y))"
| "np_maximum (Scalar x) (Array t ys) =
     Inr (Array (weak_type x t)
            (map (max (number_as (weak_type x t) x)) (map (astype t (weak_type x t)) ys)))"
| "np_maximum (Array s xs) (Scalar y) =
     Inr (Array (weak_type y s)
            (map (\<lambda>x. max x (number_as (weak_type y s) y)) (map (astype s (weak_type y s)) xs)))"
| "np_maximum (Array s xs) (Array t ys) =
     map_sum id (Array (result_type s t))
       (broadcast2 max (map (astype s (result_type s t)) xs) (map (astype t (result_type s t)) ys))"

definition ones_like :: "real list \<Rightarrow> real list" where
  "ones_like xs = replicate (length xs) 1"

text \<open>
  \<open>np.ones_like(xs) * c\<close> for an array \<open>xs\<close> of type \<open>t\<close> and a Python number \<open>c\<close>: the
  ones have the type of \<open>xs\<close>, and the product has the type that the number leaves.
\<close>

definition times_number :: "dtype \<Rightarrow> real list \<Rightarrow> number \<Rightarrow> dtype \<times> real list" where
  "times_number t ones c =
     (weak_type c t, map (\<lambda>one. one * number_as (weak_type c t) c) (map (astype t (weak_type c t)) ones))"

text \<open>
  \<open>(ys >= xs).nonzero()[0]\<close>: the indices at which the comparison holds, ascending. The
  comparison is an elementwise binary operation and converts its operands to their
  common type.
\<close>

definition nonzero :: "bool list \<Rightarrow> nat list" where
  "nonzero bs = filter (\<lambda>i. bs ! i) [0..<length bs]"

definition ge_inds :: "dtype \<Rightarrow> real list \<Rightarrow> dtype \<Rightarrow> real list \<Rightarrow> failure + nat list" where
  "ge_inds t ys s xs =
     map_sum id nonzero
       (broadcast2 (\<lambda>y x. y \<ge> x)
          (map (astype t (result_type t s)) ys) (map (astype s (result_type t s)) xs))"

text \<open>
  Reading with an index array, \<open>xs[inds]\<close>, and writing through one, \<open>xs[inds] = ys\<close>.
  Both raise when an index is not below the length. The indices are never negative here,
  and what is written has one entry for each index, being read with the same indices.
\<close>

definition take_inds :: "'a list \<Rightarrow> nat list \<Rightarrow> failure + 'a list" where
  "take_inds xs inds =
     (if \<forall>i \<in> set inds. i < length xs then Inr (map (\<lambda>i. xs ! i) inds)
      else Inl IndexOutOfBounds)"

definition put_inds :: "'a list \<Rightarrow> nat list \<Rightarrow> 'a list \<Rightarrow> failure + 'a list" where
  "put_inds xs inds ys =
     (if \<forall>i \<in> set inds. i < length xs
      then Inr (fold (\<lambda>(i, y) acc. acc[i := y]) (zip inds ys) xs)
      else Inl IndexOutOfBounds)"

definition shape :: "jacobian \<Rightarrow> failure + nat \<times> nat" where
  "shape J =
     (case J of
        Number _ \<Rightarrow> Inl NoAttribute
      | Sparse _ M \<Rightarrow> Inr (length (rows M), ncols M)
      | Dense M \<Rightarrow> Inr (length (rows M), ncols M))"

text \<open>\<open>sps.csr_matrix(shape)\<close>: the matrix of that shape with no stored entry.\<close>

definition csr_matrix :: "nat \<times> nat \<Rightarrow> jacobian" where
  "csr_matrix s = Sparse CSR \<lparr>ncols = snd s, rows = replicate (fst s) (replicate (snd s) 0)\<rparr>"

text \<open>
  Modelled from the spec: \<open>pp.matrix_operations.slice_mat\<close> and
  \<open>pp.matrix_operations.merge_matrices\<close>, which the source calls and does not contain.
  The spec and the docstring of \<open>maximum\<close> say that the Jacobian row of each element is
  taken entirely from the operand that attains the maximum: \<open>slice_mat\<close> returns the rows
  \<open>inds\<close> of a matrix, and \<open>merge_matrices\<close> replaces the rows \<open>inds\<close> of its first
  argument, in place, by the rows of the block. A block whose width differs from the
  matrix does not fit.
\<close>

definition slice_mat :: "matrix \<Rightarrow> nat list \<Rightarrow> failure + matrix" where
  "slice_mat B inds =
     and_then (take_inds (rows B) inds) (\<lambda>rs. Inr \<lparr>ncols = ncols B, rows = rs\<rparr>)"

definition merge_matrices :: "matrix \<Rightarrow> matrix \<Rightarrow> nat list \<Rightarrow> spformat \<Rightarrow> failure + matrix" where
  "merge_matrices A lines inds matrix_format =
     (if ncols lines \<noteq> ncols A then Inl ShapeMismatch
      else and_then (put_inds (rows A) inds (rows lines)) (\<lambda>rs. Inr (A\<lparr>rows := rs\<rparr>)))"

text \<open>
  The dense assignment \<open>max_jac[inds] = block\<close>: numpy broadcasts a block of width one
  across the columns, and rejects any other width that differs.
\<close>

definition assign_rows :: "matrix \<Rightarrow> nat list \<Rightarrow> matrix \<Rightarrow> failure + matrix" where
  "assign_rows A inds block =
     (if \<not> (\<forall>i \<in> set inds. i < length (rows A)) then Inl IndexOutOfBounds
      else if ncols block = ncols A
        then and_then (put_inds (rows A) inds (rows block)) (\<lambda>rs. Inr (A\<lparr>rows := rs\<rparr>))
      else if ncols block = 1
        then and_then (put_inds (rows A) inds (map (\<lambda>r. replicate (ncols A) (hd r)) (rows block)))
               (\<lambda>rs. Inr (A\<lparr>rows := rs\<rparr>))
      else Inl BroadcastError)"

text \<open>\<open>np.isclose(x, 0)\<close> with the default tolerances: \<open>|x| \<le> 1e-8\<close>.\<close>

definition isclose0 :: "real \<Rightarrow> bool" where
  "isclose0 x = (\<bar>x\<bar> \<le> 1 / 10 ^ 8)"


section \<open>The wrapped function \<open>maximum\<close>\<close>

text \<open>
  The fall-back zero Jacobian for constant arguments: a CSR matrix of the shape of the
  first argument's Jacobian when that argument is an AdArray, else of the second's.
  Asking a Python number for its \<open>.shape\<close> raises.
\<close>

definition zero_jac_for :: "operand \<Rightarrow> operand \<Rightarrow> failure + jacobian" where
  "zero_jac_for var_0 var_1 =
     (case var_0 of
        Ad a \<Rightarrow> and_then (shape (jac a)) (\<lambda>s. Inr (csr_matrix s))
      | Plain _ \<Rightarrow>
          (case var_1 of
             Ad b \<Rightarrow> and_then (shape (jac b)) (\<lambda>s. Inr (csr_matrix s))
           | Plain _ \<Rightarrow> Inr (Number 0)))"

text \<open>One round of the loop that collects \<open>vals\<close> and \<open>jacs\<close>.\<close>

definition collect :: "jacobian \<Rightarrow> operand \<Rightarrow> ndvalue \<times> jacobian" where
  "collect zero_jac var = (case var of Ad a \<Rightarrow> (val a, jac a) | Plain v \<Rightarrow> (v, zero_jac))"

text \<open>
  The Jacobian of the result: a copy of \<open>jacs[0]\<close> whose rows \<open>inds\<close> are replaced by those
  of \<open>jacs[1]\<close>. A sparse copy is kept in CSC format if it has it and converted to CSR
  otherwise; \<open>jacs[1].tocsr()\<close> needs a sparse matrix. A copy that is not sparse is
  assigned to as an array: \<open>jacs[1][inds]\<close> needs something that can be indexed, which
  among the sparse formats the model tells apart CSR and CSC are, and a sparse block is
  not accepted by the assignment. A number has no \<open>copy\<close> method.
\<close>

definition select_jac :: "jacobian \<Rightarrow> jacobian \<Rightarrow> nat list \<Rightarrow> failure + jacobian" where
  "select_jac jacs0 jacs1 inds =
     (case jacs0 of
        Number _ \<Rightarrow> Inl NoAttribute
      | Sparse f A \<Rightarrow>
          (let fmt = (if f = CSC then CSC else CSR) in
           case jacs1 of
             Sparse _ B \<Rightarrow>
               and_then (slice_mat B inds) (\<lambda>lines.
               and_then (merge_matrices A lines inds fmt) (\<lambda>M. Inr (Sparse fmt M)))
           | _ \<Rightarrow> Inl NoAttribute)
      | Dense A \<Rightarrow>
          (case jacs1 of
             Number _ \<Rightarrow> Inl NotSubscriptable
           | Sparse g B \<Rightarrow>
               (if g = COO then Inl NotSubscriptable
                else and_then (slice_mat B inds) (\<lambda>lines. Inl NotAssignable))
           | Dense B \<Rightarrow>
               and_then (slice_mat B inds) (\<lambda>block.
               and_then (assign_rows A inds block) (\<lambda>M. Inr (Dense M)))))"

text \<open>
  The part of \<open>maximum\<close> after both values have become arrays: the indices where the
  second value is at least the first, the value, the early return for a numeric
  \<open>jacs[0]\<close>, and the Jacobian. The value is a copy of the first array, which has the
  first array's element type, and the entries of the second array that are assigned into
  it are converted to that type: fractions are dropped when the first array holds
  integers and the second does not. In the early return,
  \<open>assert np.isclose(jacs[1], 0)\<close> on a matrix is taken to fail. The early return is
  never reached from \<open>maximum\<close>, where a numeric \<open>jacs[0]\<close> has raised before (lemma
  \<open>maximum_array_jacobian_is_matrix\<close>).
\<close>

definition maximum_arrays ::
  "dtype \<Rightarrow> real list \<Rightarrow> dtype \<Rightarrow> real list \<Rightarrow> jacobian \<Rightarrow> jacobian \<Rightarrow> failure + operand" where
  "maximum_arrays t0 vals0 t1 vals1 jacs0 jacs1 =
     and_then (ge_inds t1 vals1 t0 vals0) (\<lambda>inds.
     and_then (take_inds vals1 inds) (\<lambda>picked.
     and_then (put_inds vals0 inds (map (astype t1 t0) picked)) (\<lambda>max_val.
       case jacs0 of
         Number z \<Rightarrow>
           (if \<not> isclose0 z then Inl AssertionFailed
            else (case jacs1 of
                    Number z1 \<Rightarrow>
                      if isclose0 z1 then Inr (Ad \<lparr>val = Array t0 max_val, jac = Number 0\<rparr>)
                      else Inl AssertionFailed
                  | _ \<Rightarrow> Inl AssertionFailed))
       | _ \<Rightarrow>
           and_then (select_jac jacs0 jacs1 inds) (\<lambda>max_jac.
             Inr (Ad \<lparr>val = Array t0 max_val, jac = max_jac\<rparr>)))))"

text \<open>
  The function. With no AdArray among the arguments it is \<open>np.maximum\<close>. Two Python
  numbers as values give \<open>AdArray(np.max(vals), 0)\<close>; one Python number is multiplied
  into an array of ones of the other value's shape and type.
\<close>

definition maximum :: "operand \<Rightarrow> operand \<Rightarrow> failure + operand" where
  "maximum var_0 var_1 =
     (case (var_0, var_1) of
        (Plain p0, Plain p1) \<Rightarrow> map_sum id Plain (np_maximum p0 p1)
      | _ \<Rightarrow>
          and_then (zero_jac_for var_0 var_1) (\<lambda>zero_jac.
            let (v0, j0) = collect zero_jac var_0;
                (v1, j1) = collect zero_jac var_1
            in case v0 of
                 Scalar x \<Rightarrow>
                   (case v1 of
                      Scalar y \<Rightarrow> Inr (Ad \<lparr>val = Scalar (np_max x y), jac = Number 0\<rparr>)
                    | Array t1 ys \<Rightarrow>
                        (let (t0, xs) = times_number t1 (ones_like ys) x
                         in maximum_arrays t0 xs t1 ys j0 j1))
               | Array t0 xs \<Rightarrow>
                   (case v1 of
                      Scalar y \<Rightarrow>
                        (let (t1, ys) = times_number t0 (ones_like xs) y
                         in maximum_arrays t0 xs t1 ys j0 j1)
                    | Array t1 ys \<Rightarrow> maximum_arrays t0 xs t1 ys j0 j1)))"

section \<open>\<open>maximum\<close> on objects\<close>

text \<open>
  numpy arrays and scipy matrices are mutable objects, and \<open>maximum\<close> works by copying
  and then assigning in place: \<open>max_val = vals[0].copy()\<close>, \<open>max_val[inds] = \<dots>\<close>,
  \<open>max_jac = jacs[0].copy()\<close>, \<open>merge_matrices(max_jac, \<dots>)\<close>. Whether the arguments
  survive the call is a question about objects, so the function is modelled a second
  time over an explicit store. An object is an array, a sparse matrix or a dense matrix;
  a reference is its index in the store; creating an object appends it. Python numbers
  are immutable and are passed by value. An AdArray is the pair of its two attributes,
  which \<open>maximum\<close> reads and never assigns.
\<close>

datatype obj = NdArray dtype "real list" | SpMatrix spformat matrix | NdMatrix matrix

type_synonym ref = nat

type_synonym heap = "obj list"

datatype value_ref = PyNumber number | ArrayRef ref

datatype jac_ref = JacNumber real | MatrixRef ref

record AdArray_ref =
  val_ref :: value_ref
  jac_ref :: jac_ref

datatype operand_ref = AdRef AdArray_ref | PlainRef value_ref

text \<open>A computation on the store returns a value or raises, and leaves a store.\<close>

type_synonym 'a prog = "heap \<Rightarrow> (failure + 'a) \<times> heap"

definition return :: "'a \<Rightarrow> 'a prog" where
  "return x = (\<lambda>h. (Inr x, h))"

definition raise :: "failure \<Rightarrow> 'a prog" where
  "raise e = (\<lambda>h. (Inl e, h))"

definition lift :: "failure + 'a \<Rightarrow> 'a prog" where
  "lift r = (\<lambda>h. (r, h))"

definition seq :: "'a prog \<Rightarrow> ('a \<Rightarrow> 'b prog) \<Rightarrow> 'b prog" where
  "seq m f = (\<lambda>h. case m h of (Inl e, h') \<Rightarrow> (Inl e, h') | (Inr x, h') \<Rightarrow> f x h')"

definition new :: "obj \<Rightarrow> ref prog" where
  "new ob = (\<lambda>h. (Inr (length h), h @ [ob]))"

definition deref :: "ref \<Rightarrow> obj prog" where
  "deref r = (\<lambda>h. if r < length h then (Inr (h ! r), h) else (Inl BadReference, h))"

definition store :: "ref \<Rightarrow> obj \<Rightarrow> unit prog" where
  "store r ob = (\<lambda>h. if r < length h then (Inr (), h[r := ob]) else (Inl BadReference, h))"

definition get_array :: "ref \<Rightarrow> (dtype \<times> real list) prog" where
  "get_array r =
     seq (deref r) (\<lambda>ob. case ob of NdArray t xs \<Rightarrow> return (t, xs) | _ \<Rightarrow> raise BadReference)"

definition load_value :: "value_ref \<Rightarrow> ndvalue prog" where
  "load_value v =
     (case v of
        PyNumber x \<Rightarrow> return (Scalar x)
      | ArrayRef r \<Rightarrow> seq (get_array r) (\<lambda>(t, xs). return (Array t xs)))"

definition load_jac :: "jac_ref \<Rightarrow> jacobian prog" where
  "load_jac j =
     (case j of
        JacNumber z \<Rightarrow> return (Number z)
      | MatrixRef r \<Rightarrow>
          seq (deref r) (\<lambda>ob.
            case ob of
              SpMatrix f M \<Rightarrow> return (Sparse f M)
            | NdMatrix M \<Rightarrow> return (Dense M)
            | NdArray _ _ \<Rightarrow> raise BadReference))"

definition new_value :: "ndvalue \<Rightarrow> value_ref prog" where
  "new_value v =
     (case v of
        Scalar x \<Rightarrow> return (PyNumber x)
      | Array t xs \<Rightarrow> seq (new (NdArray t xs)) (\<lambda>r. return (ArrayRef r)))"

definition new_jac :: "jacobian \<Rightarrow> jac_ref prog" where
  "new_jac J =
     (case J of
        Number z \<Rightarrow> return (JacNumber z)
      | Sparse f M \<Rightarrow> seq (new (SpMatrix f M)) (\<lambda>r. return (MatrixRef r))
      | Dense M \<Rightarrow> seq (new (NdMatrix M)) (\<lambda>r. return (MatrixRef r)))"

text \<open>\<open>np.maximum(var_0, var_1)\<close> returns a new array (or a number).\<close>

definition np_maximum_h :: "value_ref \<Rightarrow> value_ref \<Rightarrow> value_ref prog" where
  "np_maximum_h p0 p1 =
     seq (load_value p0) (\<lambda>a.
     seq (load_value p1) (\<lambda>b.
     seq (lift (np_maximum a b)) new_value))"

definition zero_jac_for_h :: "operand_ref \<Rightarrow> operand_ref \<Rightarrow> jac_ref prog" where
  "zero_jac_for_h var_0 var_1 =
     (case var_0 of
        AdRef a \<Rightarrow>
          seq (load_jac (jac_ref a)) (\<lambda>J. seq (lift (shape J)) (\<lambda>s. new_jac (csr_matrix s)))
      | PlainRef _ \<Rightarrow>
          (case var_1 of
             AdRef b \<Rightarrow>
               seq (load_jac (jac_ref b)) (\<lambda>J. seq (lift (shape J)) (\<lambda>s. new_jac (csr_matrix s)))
           | PlainRef _ \<Rightarrow> return (JacNumber 0)))"

definition collect_h :: "jac_ref \<Rightarrow> operand_ref \<Rightarrow> value_ref \<times> jac_ref" where
  "collect_h zero_jac var =
     (case var of AdRef a \<Rightarrow> (val_ref a, jac_ref a) | PlainRef v \<Rightarrow> (v, zero_jac))"

text \<open>\<open>np.ones_like(other) * c\<close>: two new arrays, the second one is the broadcast number.\<close>

definition broadcast_h :: "ref \<Rightarrow> number \<Rightarrow> ref prog" where
  "broadcast_h other c =
     seq (get_array other) (\<lambda>(t, xs).
     seq (new (NdArray t (ones_like xs))) (\<lambda>ones_ref.
     seq (get_array ones_ref) (\<lambda>(t1, ones).
     new (NdArray (fst (times_number t1 ones c)) (snd (times_number t1 ones c))))))"

text \<open>
  \<open>target[inds] = picked\<close>, in place: what is assigned is converted from its element
  type to that of the target.
\<close>

definition setitem :: "ref \<Rightarrow> nat list \<Rightarrow> dtype \<Rightarrow> real list \<Rightarrow> unit prog" where
  "setitem target inds s picked =
     seq (get_array target) (\<lambda>(t, xs).
     seq (lift (put_inds xs inds (map (astype s t) picked))) (\<lambda>xs'.
     store target (NdArray t xs')))"

text \<open>\<open>M.tocsr()\<close> returns the matrix itself when it already is in CSR format.\<close>

definition tocsr :: "jac_ref \<Rightarrow> ref prog" where
  "tocsr j =
     (case j of
        JacNumber _ \<Rightarrow> raise NoAttribute
      | MatrixRef r \<Rightarrow>
          seq (deref r) (\<lambda>ob.
            case ob of
              SpMatrix f M \<Rightarrow> if f = CSR then return r else new (SpMatrix CSR M)
            | NdMatrix _ \<Rightarrow> raise NoAttribute
            | NdArray _ _ \<Rightarrow> raise BadReference))"

text \<open>
  The two helpers on objects: \<open>slice_mat\<close> returns a new matrix, \<open>merge_matrices\<close>
  alters its first argument.
\<close>

definition slice_mat_h :: "ref \<Rightarrow> nat list \<Rightarrow> ref prog" where
  "slice_mat_h b inds =
     seq (deref b) (\<lambda>ob.
       case ob of
         SpMatrix f B \<Rightarrow> seq (lift (slice_mat B inds)) (\<lambda>L. new (SpMatrix f L))
       | NdMatrix B \<Rightarrow> seq (lift (slice_mat B inds)) (\<lambda>L. new (NdMatrix L))
       | NdArray _ _ \<Rightarrow> raise BadReference)"

definition merge_matrices_h :: "ref \<Rightarrow> ref \<Rightarrow> nat list \<Rightarrow> spformat \<Rightarrow> unit prog" where
  "merge_matrices_h a lines inds matrix_format =
     seq (deref a) (\<lambda>oa.
     seq (deref lines) (\<lambda>ol.
       case oa of
         SpMatrix fa A \<Rightarrow>
           (case ol of
              SpMatrix _ L \<Rightarrow>
                seq (lift (merge_matrices A L inds matrix_format)) (\<lambda>M. store a (SpMatrix fa M))
            | _ \<Rightarrow> raise BadReference)
       | _ \<Rightarrow> raise BadReference))"

text \<open>The dense assignment \<open>max_jac[inds] = jacs[1][inds]\<close>.\<close>

definition getitem_rows :: "jac_ref \<Rightarrow> nat list \<Rightarrow> ref prog" where
  "getitem_rows j inds =
     (case j of
        JacNumber _ \<Rightarrow> raise NotSubscriptable
      | MatrixRef r \<Rightarrow>
          seq (deref r) (\<lambda>ob.
            case ob of
              SpMatrix g _ \<Rightarrow> if g = COO then raise NotSubscriptable else slice_mat_h r inds
            | _ \<Rightarrow> slice_mat_h r inds))"

definition setitem_rows :: "ref \<Rightarrow> nat list \<Rightarrow> ref \<Rightarrow> unit prog" where
  "setitem_rows a inds block =
     seq (deref a) (\<lambda>oa.
     seq (deref block) (\<lambda>ob.
       case oa of
         NdMatrix A \<Rightarrow>
           (case ob of
              NdMatrix L \<Rightarrow> seq (lift (assign_rows A inds L)) (\<lambda>M. store a (NdMatrix M))
            | SpMatrix _ _ \<Rightarrow> raise NotAssignable
            | NdArray _ _ \<Rightarrow> raise BadReference)
       | _ \<Rightarrow> raise BadReference))"

definition select_jac_h :: "ref \<Rightarrow> jac_ref \<Rightarrow> nat list \<Rightarrow> ref prog" where
  "select_jac_h m0 jacs1 inds =
     seq (deref m0) (\<lambda>ob.
     seq (new ob) (\<lambda>copied.
       case ob of
         SpMatrix f _ \<Rightarrow>
           seq (if f \<noteq> CSC then tocsr (MatrixRef copied) else return copied) (\<lambda>max_jac.
           seq (tocsr jacs1) (\<lambda>b.
           seq (slice_mat_h b inds) (\<lambda>lines.
           seq (merge_matrices_h max_jac lines inds (if f = CSC then CSC else CSR)) (\<lambda>_.
           return max_jac))))
       | NdMatrix _ \<Rightarrow>
           seq (getitem_rows jacs1 inds) (\<lambda>block.
           seq (setitem_rows copied inds block) (\<lambda>_.
           return copied))
       | NdArray _ _ \<Rightarrow> raise BadReference))"

definition maximum_arrays_h :: "ref \<Rightarrow> ref \<Rightarrow> jac_ref \<Rightarrow> jac_ref \<Rightarrow> operand_ref prog" where
  "maximum_arrays_h vals0 vals1 jacs0 jacs1 =
     seq (get_array vals1) (\<lambda>(t1, ys).
     seq (get_array vals0) (\<lambda>(t0, xs).
     seq (lift (ge_inds t1 ys t0 xs)) (\<lambda>inds.
     seq (new (NdArray t0 xs)) (\<lambda>max_val.
     seq (lift (take_inds ys inds)) (\<lambda>picked.
     seq (setitem max_val inds t1 picked) (\<lambda>_.
       case jacs0 of
         JacNumber z \<Rightarrow>
           (if \<not> isclose0 z then raise AssertionFailed
            else (case jacs1 of
                    JacNumber z1 \<Rightarrow>
                      if isclose0 z1
                      then return (AdRef \<lparr>val_ref = ArrayRef max_val, jac_ref = JacNumber 0\<rparr>)
                      else raise AssertionFailed
                  | MatrixRef _ \<Rightarrow> raise AssertionFailed))
       | MatrixRef m0 \<Rightarrow>
           seq (select_jac_h m0 jacs1 inds) (\<lambda>max_jac.
           return (AdRef \<lparr>val_ref = ArrayRef max_val, jac_ref = MatrixRef max_jac\<rparr>))))))))"

definition maximum_h :: "operand_ref \<Rightarrow> operand_ref \<Rightarrow> operand_ref prog" where
  "maximum_h var_0 var_1 =
     (case (var_0, var_1) of
        (PlainRef p0, PlainRef p1) \<Rightarrow> seq (np_maximum_h p0 p1) (\<lambda>v. return (PlainRef v))
      | _ \<Rightarrow>
          seq (zero_jac_for_h var_0 var_1) (\<lambda>zero_jac.
            let (v0, j0) = collect_h zero_jac var_0;
                (v1, j1) = collect_h zero_jac var_1
            in case v0 of
                 PyNumber x \<Rightarrow>
                   (case v1 of
                      PyNumber y \<Rightarrow>
                        return (AdRef \<lparr>val_ref = PyNumber (np_max x y), jac_ref = JacNumber 0\<rparr>)
                    | ArrayRef r1 \<Rightarrow>
                        seq (broadcast_h r1 x) (\<lambda>r0. maximum_arrays_h r0 r1 j0 j1))
               | ArrayRef r0 \<Rightarrow>
                   (case v1 of
                      PyNumber y \<Rightarrow>
                        seq (broadcast_h r0 y) (\<lambda>r1. maximum_arrays_h r0 r1 j0 j1)
                    | ArrayRef r1 \<Rightarrow> maximum_arrays_h r0 r1 j0 j1)))"

text \<open>What a reference stands for in a store: the value of the pure model, if any.\<close>

definition value_at :: "heap \<Rightarrow> value_ref \<Rightarrow> ndvalue option" where
  "value_at h v =
     (case v of
        PyNumber x \<Rightarrow> Some (Scalar x)
      | ArrayRef r \<Rightarrow>
          (if r < length h
           then (case h ! r of NdArray t xs \<Rightarrow> Some (Array t xs) | _ \<Rightarrow> None)
           else None))"

definition jac_at :: "heap \<Rightarrow> jac_ref \<Rightarrow> jacobian option" where
  "jac_at h j =
     (case j of
        JacNumber z \<Rightarrow> Some (Number z)
      | MatrixRef r \<Rightarrow>
          (if r < length h
           then (case h ! r of
                   SpMatrix f M \<Rightarrow> Some (Sparse f M)
                 | NdMatrix M \<Rightarrow> Some (Dense M)
                 | NdArray _ _ \<Rightarrow> None)
           else None))"

definition operand_at :: "heap \<Rightarrow> operand_ref \<Rightarrow> operand option" where
  "operand_at h var =
     (case var of
        PlainRef v \<Rightarrow> map_option Plain (value_at h v)
      | AdRef a \<Rightarrow>
          (case value_at h (val_ref a) of
             None \<Rightarrow> None
           | Some v \<Rightarrow>
               (case jac_at h (jac_ref a) of
                  None \<Rightarrow> None
                | Some J \<Rightarrow> Some (Ad \<lparr>val = v, jac = J\<rparr>))))"

text \<open>The references an operand holds.\<close>

definition refs_of :: "operand_ref \<Rightarrow> ref set" where
  "refs_of var =
     (case var of
        PlainRef v \<Rightarrow> (case v of PyNumber _ \<Rightarrow> {} | ArrayRef r \<Rightarrow> {r})
      | AdRef a \<Rightarrow>
          (case val_ref a of PyNumber _ \<Rightarrow> {} | ArrayRef r \<Rightarrow> {r})
          \<union> (case jac_ref a of JacNumber _ \<Rightarrow> {} | MatrixRef r \<Rightarrow> {r}))"

text \<open>
  A result on the store stands for a result of the pure model: the same failure, or a
  reference that reads as the pure result.
\<close>

definition refines :: "(failure + 'a) \<Rightarrow> (failure + 'b) \<Rightarrow> ('a \<Rightarrow> 'b option) \<Rightarrow> bool" where
  "refines res pure rd =
     (case res of Inl e \<Rightarrow> pure = Inl e | Inr r \<Rightarrow> (\<exists>R. rd r = Some R \<and> pure = Inr R))"


section \<open>Operator trees and their evaluation\<close>

text \<open>
  Modelled from the spec: the operator tree and \<open>evaluate\<close>. The source holds the rule
  for function nodes, \<open>results[0].func(*results[1:])\<close> after
  \<open>assert len(results) > 1\<close>, the wrapped function \<open>maximum\<close>, and the construction
  \<open>pp.ad.Function(partial(l2_norm, nd - 1), name)\<close>; the classes \<open>Operator\<close> and
  \<open>Function\<close> and the arithmetic of AdArrays are missing. Following the spec, a tree
  has atomic leaves, which point to places in the store where the numerical values are
  kept, and composite nodes. A variable leaf names the stored value array of each of its
  grid entities with the offset of its range in the global vector, and the total number
  of degrees of freedom; a constant leaf points to a frozen value; a matrix is applied to
  an operand as a leaf of the product node.

  A wrapped function is \<open>maximum\<close>, whose implementation on objects is known, or any
  other function of one or two evaluated arguments.
\<close>

datatype wrapped =
    Maximum
  | Unary "operand \<Rightarrow> failure + operand"
  | Binary "operand \<Rightarrow> operand \<Rightarrow> failure + operand"

record Function =
  func :: wrapped
  name :: string

datatype operator =
    Variable "(ref \<times> nat) list" nat
  | Constant value_ref
  | Sum operator operator
  | Difference operator operator
  | ScalarProduct real operator
  | MatrixApply ref operator
  | FunctionApply wrapped string "operator list"

text \<open>\<open>functools.partial(f, c)\<close> binds the first positional argument.\<close>

definition partial :: "('c \<Rightarrow> 'a \<Rightarrow> 'b) \<Rightarrow> 'c \<Rightarrow> 'a \<Rightarrow> 'b" where
  "partial f c = (\<lambda>x. f c x)"

text \<open>Calling a \<open>Function\<close> on operators builds the function node.\<close>

definition call_Function :: "Function \<Rightarrow> operator list \<Rightarrow> operator" where
  "call_Function F args = FunctionApply (func F) (name F) args"

text \<open>
  The arithmetic of the composite nodes is a parameter: what the sum, the difference, the
  scalar multiple and the matrix product of evaluated operands are, or that they fail
  (a dimension mismatch). They are functions of the operands' values and Jacobians.
\<close>

record arithmetic =
  add :: "operand \<Rightarrow> operand \<Rightarrow> failure + operand"
  subtract :: "operand \<Rightarrow> operand \<Rightarrow> failure + operand"
  scale :: "real \<Rightarrow> operand \<Rightarrow> failure + operand"
  matmul :: "jacobian \<Rightarrow> operand \<Rightarrow> failure + operand"

text \<open>
  A variable leaf evaluates to the stored values, concatenated over its entities into a
  floating-point vector, with the identity restricted to the variable's column ranges as
  Jacobian.
\<close>

definition identity_rows :: "nat \<Rightarrow> nat \<Rightarrow> nat \<Rightarrow> real list list" where
  "identity_rows offset n ndofs =
     map (\<lambda>i. map (\<lambda>j. if j = offset + i then 1 else 0) [0..<ndofs]) [0..<n]"

fun variable_value :: "heap \<Rightarrow> (ref \<times> nat) list \<Rightarrow> nat \<Rightarrow> failure + real list \<times> real list list" where
  "variable_value h [] ndofs = Inr ([], [])"
| "variable_value h ((r, offset) # blocks) ndofs =
     (if r < length h
      then (case h ! r of
              NdArray t xs \<Rightarrow>
                and_then (variable_value h blocks ndofs) (\<lambda>(vs, js).
                  Inr (map (astype t float64) xs @ vs, identity_rows offset (length xs) ndofs @ js))
            | _ \<Rightarrow> Inl BadReference)
      else Inl BadReference)"

definition variable_operand :: "heap \<Rightarrow> (ref \<times> nat) list \<Rightarrow> nat \<Rightarrow> failure + operand" where
  "variable_operand h blocks ndofs =
     and_then (variable_value h blocks ndofs) (\<lambda>(vs, js).
       Inr (Ad \<lparr>val = Array float64 vs, jac = Sparse CSR \<lparr>ncols = ndofs, rows = js\<rparr>\<rparr>))"

text \<open>
  The call of a function node: the wrapped function applied to the evaluated children.
  There is at least one child.
\<close>

fun call :: "wrapped \<Rightarrow> operand list \<Rightarrow> failure + operand" where
  "call f [] = Inl AssertionFailed"
| "call Maximum [a, b] = maximum a b"
| "call (Unary g) [a] = g a"
| "call (Binary g) [a, b] = g a b"
| "call f args = Inl WrongArity"

text \<open>Evaluation as a function of the store's contents.\<close>

fun evaluate :: "arithmetic \<Rightarrow> heap \<Rightarrow> operator \<Rightarrow> failure + operand"
  and evaluate_all :: "arithmetic \<Rightarrow> heap \<Rightarrow> operator list \<Rightarrow> failure + operand list" where
  "evaluate ar h (Variable blocks ndofs) = variable_operand h blocks ndofs"
| "evaluate ar h (Constant v) =
     (case value_at h v of None \<Rightarrow> Inl BadReference | Some V \<Rightarrow> Inr (Plain V))"
| "evaluate ar h (Sum x y) =
     and_then (evaluate ar h x) (\<lambda>a. and_then (evaluate ar h y) (\<lambda>b. add ar a b))"
| "evaluate ar h (Difference x y) =
     and_then (evaluate ar h x) (\<lambda>a. and_then (evaluate ar h y) (\<lambda>b. subtract ar a b))"
| "evaluate ar h (ScalarProduct c x) =
     and_then (evaluate ar h x) (\<lambda>a. scale ar c a)"
| "evaluate ar h (MatrixApply m x) =
     and_then (evaluate ar h x) (\<lambda>a.
       case jac_at h (MatrixRef m) of None \<Rightarrow> Inl BadReference | Some M \<Rightarrow> matmul ar M a)"
| "evaluate ar h (FunctionApply f nm children) =
     and_then (evaluate_all ar h children) (\<lambda>results. call f results)"
| "evaluate_all ar h [] = Inr []"
| "evaluate_all ar h (x # xs) =
     and_then (evaluate ar h x) (\<lambda>a. and_then (evaluate_all ar h xs) (\<lambda>as. Inr (a # as)))"

text \<open>
  Evaluation on the store. Atomic values are read where they are: a constant leaf
  returns the stored object itself. Every computed result is a new object; \<open>maximum\<close>
  runs as it does on objects.
\<close>

definition load_operand :: "operand_ref \<Rightarrow> operand prog" where
  "load_operand var =
     (\<lambda>h. case operand_at h var of None \<Rightarrow> (Inl BadReference, h) | Some V \<Rightarrow> (Inr V, h))"

definition new_operand :: "operand \<Rightarrow> operand_ref prog" where
  "new_operand V =
     (case V of
        Plain v \<Rightarrow> seq (new_value v) (\<lambda>r. return (PlainRef r))
      | Ad a \<Rightarrow>
          seq (new_value (val a)) (\<lambda>v.
          seq (new_jac (jac a)) (\<lambda>j.
          return (AdRef \<lparr>val_ref = v, jac_ref = j\<rparr>))))"

fun call_h :: "wrapped \<Rightarrow> operand_ref list \<Rightarrow> operand_ref prog" where
  "call_h f [] = raise AssertionFailed"
| "call_h Maximum [a, b] = maximum_h a b"
| "call_h (Unary g) [a] =
     seq (load_operand a) (\<lambda>A. seq (lift (g A)) new_operand)"
| "call_h (Binary g) [a, b] =
     seq (load_operand a) (\<lambda>A. seq (load_operand b) (\<lambda>B. seq (lift (g A B)) new_operand))"
| "call_h f args = raise WrongArity"

fun evaluate_h :: "arithmetic \<Rightarrow> operator \<Rightarrow> operand_ref prog"
  and evaluate_all_h :: "arithmetic \<Rightarrow> operator list \<Rightarrow> operand_ref list prog" where
  "evaluate_h ar (Variable blocks ndofs) =
     seq (\<lambda>h. (variable_operand h blocks ndofs, h)) new_operand"
| "evaluate_h ar (Constant v) = seq (load_value v) (\<lambda>_. return (PlainRef v))"
| "evaluate_h ar (Sum x y) =
     seq (evaluate_h ar x) (\<lambda>a. seq (evaluate_h ar y) (\<lambda>b.
     seq (load_operand a) (\<lambda>A. seq (load_operand b) (\<lambda>B.
     seq (lift (add ar A B)) new_operand))))"
| "evaluate_h ar (Difference x y) =
     seq (evaluate_h ar x) (\<lambda>a. seq (evaluate_h ar y) (\<lambda>b.
     seq (load_operand a) (\<lambda>A. seq (load_operand b) (\<lambda>B.
     seq (lift (subtract ar A B)) new_operand))))"
| "evaluate_h ar (ScalarProduct c x) =
     seq (evaluate_h ar x) (\<lambda>a.
     seq (load_operand a) (\<lambda>A.
     seq (lift (scale ar c A)) new_operand))"
| "evaluate_h ar (MatrixApply m x) =
     seq (evaluate_h ar x) (\<lambda>a.
     seq (load_operand a) (\<lambda>A.
     seq (load_jac (MatrixRef m)) (\<lambda>M.
     seq (lift (matmul ar M A)) new_operand)))"
| "evaluate_h ar (FunctionApply f nm children) =
     seq (evaluate_all_h ar children) (\<lambda>results. call_h f results)"
| "evaluate_all_h ar [] = return []"
| "evaluate_all_h ar (x # xs) =
     seq (evaluate_h ar x) (\<lambda>a. seq (evaluate_all_h ar xs) (\<lambda>as. return (a # as)))"

text \<open>The places in the store that a tree points to.\<close>

fun leaf_refs :: "operator \<Rightarrow> ref set"
  and leaf_refs_list :: "operator list \<Rightarrow> ref set" where
  "leaf_refs (Variable blocks ndofs) = fst ` set blocks"
| "leaf_refs (Constant v) = (case v of PyNumber _ \<Rightarrow> {} | ArrayRef r \<Rightarrow> {r})"
| "leaf_refs (Sum x y) = leaf_refs x \<union> leaf_refs y"
| "leaf_refs (Difference x y) = leaf_refs x \<union> leaf_refs y"
| "leaf_refs (ScalarProduct c x) = leaf_refs x"
| "leaf_refs (MatrixApply m x) = insert m (leaf_refs x)"
| "leaf_refs (FunctionApply f nm children) = leaf_refs_list children"
| "leaf_refs_list [] = {}"
| "leaf_refs_list (x # xs) = leaf_refs x \<union> leaf_refs_list xs"


section \<open>Degrees of freedom and stored values\<close>

text \<open>
  Modelled from the spec: the DOF manager (\<open>pp.DofManager\<close>, whose code is missing).
  A grid entity has an identity and a number of cells. \<open>register\<close> gives each entity of
  a variable the next free contiguous range of the global vector, of the block size
  times the number of cells, in entity order, and fails on a pair of variable and entity
  that is registered already. \<open>block_dof\<close> maps the pairs to their offset and length, in
  the order of registration.
\<close>

record entity =
  ident :: nat
  num_cells :: nat

type_synonym key = "string \<times> nat"

record DofManager =
  block_dof :: "(key \<times> nat \<times> nat) list"
  total_dofs :: nat

definition empty_DofManager :: DofManager where
  "empty_DofManager = \<lparr>block_dof = [], total_dofs = 0\<rparr>"

definition register_entity :: "string \<Rightarrow> nat \<Rightarrow> DofManager \<Rightarrow> entity \<Rightarrow> failure + DofManager" where
  "register_entity variable block_shape dm e =
     (if (variable, ident e) \<in> set (map fst (block_dof dm))
      then Inl (DuplicateRegistration variable (ident e))
      else Inr \<lparr>block_dof =
                  block_dof dm
                  @ [((variable, ident e), (total_dofs dm, block_shape * num_cells e))],
                total_dofs = total_dofs dm + block_shape * num_cells e\<rparr>)"

fun register_entities :: "string \<Rightarrow> nat \<Rightarrow> entity list \<Rightarrow> DofManager \<Rightarrow> failure + DofManager" where
  "register_entities variable block_shape [] dm = Inr dm"
| "register_entities variable block_shape (e # es) dm =
     and_then (register_entity variable block_shape dm e)
       (register_entities variable block_shape es)"

definition register :: "DofManager \<Rightarrow> string \<Rightarrow> entity list \<Rightarrow> nat \<Rightarrow> failure + DofManager" where
  "register dm variable entities block_shape =
     register_entities variable block_shape entities dm"

text \<open>A registration sequence, from the empty manager.\<close>

fun register_all :: "(string \<times> entity list \<times> nat) list \<Rightarrow> DofManager \<Rightarrow> failure + DofManager" where
  "register_all [] dm = Inr dm"
| "register_all ((variable, entities, block_shape) # rest) dm =
     and_then (register dm variable entities block_shape) (register_all rest)"

definition layout :: "DofManager \<Rightarrow> (key \<times> nat \<times> nat) list" where
  "layout dm = block_dof dm"

text \<open>The indices of a range, and whether an index lies in it.\<close>

definition dof_range :: "key \<times> nat \<times> nat \<Rightarrow> nat list" where
  "dof_range b = (case b of (k, offset, len) \<Rightarrow> [offset..<offset + len])"

definition in_range :: "key \<times> nat \<times> nat \<Rightarrow> nat \<Rightarrow> bool" where
  "in_range b i = (case b of (k, offset, len) \<Rightarrow> offset \<le> i \<and> i < offset + len)"

text \<open>The ranges, in the order of registration, make up the global index range.\<close>

definition partitioned :: "DofManager \<Rightarrow> bool" where
  "partitioned dm \<longleftrightarrow>
     concat (map dof_range (block_dof dm)) = [0..<total_dofs dm]
     \<and> distinct (map fst (block_dof dm))"

text \<open>
  The stored values of one entity, as \<open>DofManager.get_variable_values\<close> reads them:
  \<open>data[pp.STATE]\<close> is a dictionary from variable names to arrays, with the values of
  the current iterate in a dictionary of their own under \<open>pp.ITERATE\<close>. Either
  dictionary may be missing.
\<close>

record STATE_dict =
  by_name :: "string \<rightharpoonup> real list"
  ITERATE :: "(string \<rightharpoonup> real list) option"

record data_dict =
  STATE :: "STATE_dict option"

definition stored :: "data_dict \<Rightarrow> string \<Rightarrow> bool \<Rightarrow> real list option" where
  "stored d var_name from_iterate =
     (case STATE d of
        None \<Rightarrow> None
      | Some st \<Rightarrow>
          if from_iterate
          then (case ITERATE st of None \<Rightarrow> None | Some it \<Rightarrow> it var_name)
          else by_name st var_name)"

text \<open>
  The part of \<open>get_variable_values\<close> that the source shows (in a traceback): the
  \<open>try\<close> block of one pass of its loop. It appends a copy of the stored array, and turns
  the KeyError of any of the look-ups into a KeyError that names the variable, the flag
  and the grid. The local variable \<open>data\<close> is assigned in code that is not shown; the
  traceback records a run in which it was not assigned, where its use raises the
  UnboundLocalError, which is no KeyError and passes through.
\<close>

definition get_variable_values :: "data_dict option \<Rightarrow> string \<Rightarrow> bool \<Rightarrow> nat \<Rightarrow> failure + real list" where
  "get_variable_values data var_name from_iterate grid =
     (case data of
        None \<Rightarrow> Inl UnboundLocalError
      | Some d \<Rightarrow>
          (case stored d var_name from_iterate of
             None \<Rightarrow> Inl (KeyError var_name from_iterate grid)
           | Some v \<Rightarrow> Inr v))"

section \<open>The state of the core\<close>

text \<open>
  Modelled from the spec: the entity state store and the operations of the core on it.
  The store keeps the values of each registered pair of variable and entity, and the
  cached discretization matrices, as objects; \<open>places\<close> and \<open>cache\<close> say where. The
  operations are registration, discretization (which caches a matrix computed by an
  external routine under a key), evaluation of an operator, and the distribution of a
  solved increment, which the core offers as \<open>distribute(increment, additive: true)\<close>
  (\<open>dof_manager.distribute_variable(solution, additive=True)\<close> in the tutorial; the
  function itself is missing). Stored variable values are floating-point arrays.
\<close>

record core_state =
  dofs :: DofManager
  places :: "key \<rightharpoonup> ref"
  cache :: "string \<rightharpoonup> ref"
  objects :: heap

definition stored_value :: "core_state \<Rightarrow> key \<Rightarrow> real list option" where
  "stored_value s k =
     (case places s k of
        None \<Rightarrow> None
      | Some r \<Rightarrow>
          (case value_at (objects s) (ArrayRef r) of
             Some (Array t xs) \<Rightarrow> Some xs
           | _ \<Rightarrow> None))"

text \<open>
  The new value of one block: the stored value plus the slice of the increment, or the
  slice itself when the distribution is not additive.
\<close>

definition increment_block :: "bool \<Rightarrow> real list \<Rightarrow> real list \<Rightarrow> failure + real list" where
  "increment_block is_additive v d =
     (if \<not> is_additive then Inr d
      else if length v = length d then Inr (map2 (+) v d)
      else Inl DimensionMismatch)"

fun distribute_blocks :: "(key \<rightharpoonup> ref) \<Rightarrow> real list \<Rightarrow> bool \<Rightarrow> (key \<times> nat \<times> nat) list \<Rightarrow> unit prog" where
  "distribute_blocks pl increment is_additive [] = return ()"
| "distribute_blocks pl increment is_additive ((k, offset, len) # blocks) =
     (case pl k of
        None \<Rightarrow> raise (MissingVariableValue (fst k) (snd k))
      | Some r \<Rightarrow>
          seq (get_array r) (\<lambda>(t, v).
          seq (lift (increment_block is_additive (map (astype t float64) v)
                       (take len (drop offset increment)))) (\<lambda>v'.
          seq (store r (NdArray float64 v')) (\<lambda>_.
          distribute_blocks pl increment is_additive blocks))))"

definition distribute_variable :: "core_state \<Rightarrow> real list \<Rightarrow> bool \<Rightarrow> failure + core_state" where
  "distribute_variable s increment is_additive =
     (if length increment \<noteq> total_dofs (dofs s) then Inl DimensionMismatch
      else (case distribute_blocks (places s) increment is_additive (block_dof (dofs s)) (objects s) of
              (Inl e, _) \<Rightarrow> Inl e
            | (Inr _, h') \<Rightarrow> Inr (s\<lparr>objects := h'\<rparr>)))"

text \<open>
  The operations of the core, as the spec lists them. The distribution is the additive
  one: the core has no operation that distributes in another manner.
\<close>

datatype command =
    Register string "entity list" nat
  | Discretize string matrix
  | Evaluate arithmetic operator
  | Distribute "real list"

definition core_step :: "command \<Rightarrow> core_state \<Rightarrow> failure + core_state" where
  "core_step c s =
     (case c of
        Register variable entities block_shape \<Rightarrow>
          and_then (register (dofs s) variable entities block_shape) (\<lambda>dm. Inr (s\<lparr>dofs := dm\<rparr>))
      | Discretize matrix_key M \<Rightarrow>
          Inr (s\<lparr>cache := (cache s)(matrix_key \<mapsto> length (objects s)),
                 objects := objects s @ [SpMatrix CSR M]\<rparr>)
      | Evaluate ar x \<Rightarrow>
          (case evaluate_h ar x (objects s) of
             (Inl e, _) \<Rightarrow> Inl e
           | (Inr _, h') \<Rightarrow> Inr (s\<lparr>objects := h'\<rparr>))
      | Distribute increment \<Rightarrow> distribute_variable s increment True)"

text \<open>
  A state is well formed when the registered ranges partition the global vector, no two
  pairs share a place, and every place holds a floating-point array.
\<close>

definition wf_state :: "core_state \<Rightarrow> bool" where
  "wf_state s =
     (partitioned (dofs s)
      \<and> (\<forall>k k' r. places s k = Some r \<longrightarrow> places s k' = Some r \<longrightarrow> k = k')
      \<and> (\<forall>k r. places s k = Some r \<longrightarrow>
            r < length (objects s) \<and> (\<exists>xs. objects s ! r = NdArray float64 xs)))"


section \<open>Properties of \<open>maximum\<close>\<close>

subsection \<open>Conversions\<close>

lemma spacing_small: "a \<le> 2 ^ 53 \<Longrightarrow> spacing a = (if a < 2 ^ 53 then 1 else 2)"
  by (subst spacing.simps, subst spacing.simps) simp

lemma nearest_even_small: "a \<le> 2 ^ 53 \<Longrightarrow> nearest_even a = a"
  by (auto simp: nearest_even_def spacing_small Let_def)

lemma float64_of_int_exact: "\<bar>n\<bar> \<le> 2 ^ 53 \<Longrightarrow> float64_of_int n = of_int n"
proof -
  assume a: "\<bar>n\<bar> \<le> 2 ^ 53"
  have "nat \<bar>n\<bar> \<le> 2 ^ 53" using a by (simp add: nat_le_iff)
  then have "nearest_even (nat \<bar>n\<bar>) = nat \<bar>n\<bar>" by (rule nearest_even_small)
  then show ?thesis by (auto simp: float64_of_int_def abs_if split: if_splits)
qed

lemma astype_same [simp]: "astype t t x = x"
  by (simp add: astype_def)

lemma map_astype_same [simp]: "map (astype t t) xs = xs"
  by (simp add: map_idI)

lemma result_type_same [simp]: "result_type t t = t"
  by (simp add: result_type_def)

lemma weak_type_float64 [simp]: "weak_type c float64 = float64"
  by (simp add: weak_type_def split: number.splits)

lemma as_float64_fits: "fits_float64 c \<Longrightarrow> as_float64 c = number_value c"
  by (auto simp: fits_float64_def as_float64_def number_value_def float64_of_int_exact
      split: number.splits)


subsection \<open>Index arrays\<close>

lemma fold_put:
  "\<forall>i\<in>set inds. i < length xs \<Longrightarrow>
   fold (\<lambda>(i, y) acc. acc[i := y]) (zip inds (map g inds)) xs
     = map (\<lambda>i. if i \<in> set inds then g i else xs ! i) [0..<length xs]"
proof (induction inds arbitrary: xs)
  case Nil
  then show ?case by (simp add: map_nth)
next
  case (Cons a inds)
  have "fold (\<lambda>(i, y) acc. acc[i := y]) (zip inds (map g inds)) (xs[a := g a])
     = map (\<lambda>i. if i \<in> set inds then g i else xs[a := g a] ! i) [0..<length (xs[a := g a])]"
    using Cons.prems by (intro Cons.IH) simp
  then show ?case using Cons.prems by (auto simp: nth_list_update)
qed

lemma put_take_inds:
  assumes "\<forall>i\<in>set inds. i < length xs" and "\<forall>i\<in>set inds. i < length ys"
  shows "and_then (take_inds ys inds) (\<lambda>picked. put_inds xs inds picked)
           = Inr (map (\<lambda>i. if i \<in> set inds then ys ! i else xs ! i) [0..<length xs])"
  using assms fold_put [of inds xs "\<lambda>i. ys ! i"]
  by (simp add: and_then_def take_inds_def put_inds_def)

lemma put_take_filter:
  assumes "length ys = length xs"
  shows "and_then (take_inds ys (filter P [0..<length xs]))
           (\<lambda>picked. put_inds xs (filter P [0..<length xs]) picked)
         = Inr (map (\<lambda>i. if P i then ys ! i else xs ! i) [0..<length xs])"
  using assms by (subst put_take_inds) auto

lemma ge_inds_same_length:
  "length ys = length xs \<Longrightarrow>
   ge_inds t ys t xs = Inr (filter (\<lambda>i. ys ! i \<ge> xs ! i) [0..<length xs])"
  by (auto simp: ge_inds_def broadcast2_def nonzero_def intro: filter_cong)

lemma max_val_same_length:
  assumes "length ys = length xs"
  shows "and_then (take_inds ys (filter (\<lambda>i. ys ! i \<ge> xs ! i) [0..<length xs]))
           (\<lambda>picked. put_inds xs (filter (\<lambda>i. ys ! i \<ge> xs ! i) [0..<length xs]) picked)
         = Inr (map2 max xs (ys :: real list))"
proof -
  have "map (\<lambda>i. if ys ! i \<ge> xs ! i then ys ! i else xs ! i) [0..<length xs] = map2 max xs ys"
    using assms by (auto intro!: nth_equalityI simp: max_def)
  then show ?thesis using put_take_filter [OF assms, of "\<lambda>i. ys ! i \<ge> xs ! i"] by simp
qed

subsection \<open>Row selection in the Jacobian\<close>

lemma select_jac_sparse:
  assumes "length (rows A) = n" "length (rows B) = n" "ncols B = ncols A"
  shows "select_jac (Sparse fa A) (Sparse fb B) (filter P [0..<n])
         = Inr (Sparse (if fa = CSC then CSC else CSR)
              \<lparr>ncols = ncols A, rows = map (\<lambda>i. if P i then rows B ! i else rows A ! i) [0..<n]\<rparr>)"
proof -
  have "and_then (take_inds (rows B) (filter P [0..<length (rows A)]))
           (\<lambda>picked. put_inds (rows A) (filter P [0..<length (rows A)]) picked)
         = Inr (map (\<lambda>i. if P i then rows B ! i else rows A ! i) [0..<length (rows A)])"
    using assms by (intro put_take_filter) simp
  then show ?thesis using assms
    by (cases "take_inds (rows B) (filter P [0..<n])")
       (auto simp: select_jac_def slice_mat_def merge_matrices_def and_then_def Let_def)
qed

lemma select_jac_dense:
  assumes "length (rows A) = n" "length (rows B) = n" "ncols B = ncols A"
  shows "select_jac (Dense A) (Dense B) (filter P [0..<n])
         = Inr (Dense \<lparr>ncols = ncols A, rows = map (\<lambda>i. if P i then rows B ! i else rows A ! i) [0..<n]\<rparr>)"
proof -
  have "and_then (take_inds (rows B) (filter P [0..<length (rows A)]))
           (\<lambda>picked. put_inds (rows A) (filter P [0..<length (rows A)]) picked)
         = Inr (map (\<lambda>i. if P i then rows B ! i else rows A ! i) [0..<length (rows A)])"
    using assms by (intro put_take_filter) simp
  then show ?thesis using assms
    by (cases "take_inds (rows B) (filter P [0..<n])")
       (auto simp: select_jac_def slice_mat_def assign_rows_def and_then_def Let_def)
qed

text \<open>Two arrays of the same element type: nothing is converted.\<close>

lemma maximum_arrays_value:
  assumes "length ys = length xs" "\<not> is_Number j0"
  shows "maximum_arrays t xs t ys j0 j1 =
     and_then (select_jac j0 j1 (filter (\<lambda>i. ys ! i \<ge> xs ! i) [0..<length xs]))
       (\<lambda>max_jac. Inr (Ad \<lparr>val = Array t (map2 max xs ys), jac = max_jac\<rparr>))"
proof -
  let ?inds = "filter (\<lambda>i. ys ! i \<ge> xs ! i) [0..<length xs]"
  have g: "ge_inds t ys t xs = Inr ?inds" using assms(1) by (rule ge_inds_same_length)
  from max_val_same_length [OF assms(1)]
  obtain picked where p: "take_inds ys ?inds = Inr picked" "put_inds xs ?inds picked = Inr (map2 max xs ys)"
    by (cases "take_inds ys ?inds") (auto simp: and_then_def)
  show ?thesis using assms(2)
    by (cases j0) (simp_all add: maximum_arrays_def g p and_then_def)
qed

lemma shape_csr_matrix: "shape (csr_matrix s) = Inr s"
  by (simp add: shape_def csr_matrix_def)

lemma maximum_ad_ad_arrays:
  assumes "shape ja = Inr sh"
  shows "maximum (Ad \<lparr>val = Array s xs, jac = ja\<rparr>) (Ad \<lparr>val = Array t ys, jac = jb\<rparr>)
           = maximum_arrays s xs t ys ja jb"
  using assms by (simp add: maximum_def zero_jac_for_def collect_def and_then_def)

lemma shape_Inr_not_Number: "shape J = Inr s \<Longrightarrow> \<not> is_Number J"
  by (cases J) (simp_all add: shape_def)

lemma maximum_sparse_sparse:
  assumes "length ys = length xs" and "length (rows A) = length xs"
    and "length (rows B) = length xs" and "ncols B = ncols A"
  shows "maximum (Ad \<lparr>val = Array t xs, jac = Sparse fa A\<rparr>) (Ad \<lparr>val = Array t ys, jac = Sparse fb B\<rparr>)
           = Inr (Ad \<lparr>val = Array t (map2 max xs ys),
                      jac = Sparse (if fa = CSC then CSC else CSR)
                        \<lparr>ncols = ncols A,
                         rows = map (\<lambda>i. if xs ! i > ys ! i then rows A ! i else rows B ! i)
                                  [0..<length xs]\<rparr>\<rparr>)"
proof -
  have eq: "(\<lambda>i. if ys ! i \<ge> xs ! i then rows B ! i else rows A ! i)
          = (\<lambda>i. if xs ! i > ys ! i then rows A ! i else rows B ! i)"
    by (auto simp: fun_eq_iff)
  have "maximum (Ad \<lparr>val = Array t xs, jac = Sparse fa A\<rparr>) (Ad \<lparr>val = Array t ys, jac = Sparse fb B\<rparr>)
           = maximum_arrays t xs t ys (Sparse fa A) (Sparse fb B)"
    by (rule maximum_ad_ad_arrays) (simp add: shape_def)
  then show ?thesis
    using assms
    by (simp add: maximum_arrays_value select_jac_sparse [where n = "length xs"] and_then_def eq)
qed

lemma maximum_dense_dense:
  assumes "length ys = length xs" and "length (rows A) = length xs"
    and "length (rows B) = length xs" and "ncols B = ncols A"
  shows "maximum (Ad \<lparr>val = Array t xs, jac = Dense A\<rparr>) (Ad \<lparr>val = Array t ys, jac = Dense B\<rparr>)
           = Inr (Ad \<lparr>val = Array t (map2 max xs ys),
                      jac = Dense
                        \<lparr>ncols = ncols A,
                         rows = map (\<lambda>i. if xs ! i > ys ! i then rows A ! i else rows B ! i)
                                  [0..<length xs]\<rparr>\<rparr>)"
proof -
  have eq: "(\<lambda>i. if ys ! i \<ge> xs ! i then rows B ! i else rows A ! i)
          = (\<lambda>i. if xs ! i > ys ! i then rows A ! i else rows B ! i)"
    by (auto simp: fun_eq_iff)
  have "maximum (Ad \<lparr>val = Array t xs, jac = Dense A\<rparr>) (Ad \<lparr>val = Array t ys, jac = Dense B\<rparr>)
           = maximum_arrays t xs t ys (Dense A) (Dense B)"
    by (rule maximum_ad_ad_arrays) (simp add: shape_def)
  then show ?thesis
    using assms
    by (simp add: maximum_arrays_value select_jac_dense [where n = "length xs"] and_then_def eq)
qed

lemma maximum_arrays_is_Ad: "maximum_arrays s xs t ys j0 j1 = Inr r \<Longrightarrow> is_Ad r"
  by (auto simp: maximum_arrays_def and_then_def split: sum.splits jacobian.splits if_splits)

lemma maximum_result_kind:
  assumes "maximum var_0 var_1 = Inr r"
  shows "is_Ad r \<longleftrightarrow> is_Ad var_0 \<or> is_Ad var_1"
proof (cases "is_Ad var_0 \<or> is_Ad var_1")
  case False
  then obtain p0 p1 where "var_0 = Plain p0" "var_1 = Plain p1"
    by (cases var_0; cases var_1) auto
  with assms False show ?thesis
    by (cases "np_maximum p0 p1") (auto simp: maximum_def)
next
  case True
  with assms have "is_Ad r"
    by (cases var_0; cases var_1)
       (auto simp: maximum_def and_then_def collect_def
          split: sum.splits ndvalue.splits prod.splits dest: maximum_arrays_is_Ad)
  with True show ?thesis by simp
qed

lemma maximum_plain_second:
  assumes "shape (jac a) = Inr s"
  shows "maximum (Ad a) (Plain v) = maximum (Ad a) (Ad \<lparr>val = v, jac = csr_matrix s\<rparr>)"
  using assms by (simp add: maximum_def zero_jac_for_def collect_def and_then_def)

lemma maximum_plain_first:
  assumes "shape (jac b) = Inr s"
  shows "maximum (Plain v) (Ad b) = maximum (Ad \<lparr>val = v, jac = csr_matrix s\<rparr>) (Ad b)"
  using assms by (simp add: maximum_def zero_jac_for_def collect_def and_then_def shape_csr_matrix)

lemma astype_one: "astype s t 1 = 1"
  using float64_of_int_exact [of 1]
  by (simp add: astype_def int64_of_float_def split: dtype.splits)

lemma broadcast_ones:
  "times_number t (ones_like xs) c
     = (weak_type c t, replicate (length xs) (number_as (weak_type c t) c))"
  by (simp add: times_number_def ones_like_def map_replicate_const astype_one)

text \<open>
  For two AdArrays whose values are arrays of the same element type and of equal length,
  and whose Jacobians are matrices of the same width with one row per value entry (both
  sparse, or both dense), \<open>maximum\<close> returns an AdArray whose value is the elementwise
  maximum and whose Jacobian has, at every index, the row of the first operand where the
  first value is strictly larger, and the row of the second operand otherwise, so also at
  a tie. A sparse result is in CSC format if the first Jacobian was, and in CSR format
  otherwise.
\<close>

lemma maximum_same_type_selects_rows:
  assumes "length ys = length xs" and "length (rows A) = length xs"
    and "length (rows B) = length xs" and "ncols B = ncols A"
  shows "maximum (Ad \<lparr>val = Array t xs, jac = Sparse fa A\<rparr>) (Ad \<lparr>val = Array t ys, jac = Sparse fb B\<rparr>)
           = Inr (Ad \<lparr>val = Array t (map2 max xs ys),
                      jac = Sparse (if fa = CSC then CSC else CSR)
                        \<lparr>ncols = ncols A,
                         rows = map (\<lambda>i. if xs ! i > ys ! i then rows A ! i else rows B ! i)
                                  [0..<length xs]\<rparr>\<rparr>)
       \<and> maximum (Ad \<lparr>val = Array t xs, jac = Dense A\<rparr>) (Ad \<lparr>val = Array t ys, jac = Dense B\<rparr>)
           = Inr (Ad \<lparr>val = Array t (map2 max xs ys),
                      jac = Dense
                        \<lparr>ncols = ncols A,
                         rows = map (\<lambda>i. if xs ! i > ys ! i then rows A ! i else rows B ! i)
                                  [0..<length xs]\<rparr>\<rparr>)"
  using assms by (simp add: maximum_sparse_sparse maximum_dense_dense)

lemma maximum_same_type_example:
  "maximum (Ad \<lparr>val = Array float64 [1, 5, 3], jac = Sparse CSR \<lparr>ncols = 2, rows = [[1, 0], [0, 1], [1, 1]]\<rparr>\<rparr>)
           (Ad \<lparr>val = Array float64 [2, 4, 3], jac = Sparse COO \<lparr>ncols = 2, rows = [[7, 0], [0, 8], [9, 9]]\<rparr>\<rparr>)
     = Inr (Ad \<lparr>val = Array float64 [2, 5, 3],
                jac = Sparse CSR \<lparr>ncols = 2, rows = [[7, 0], [0, 1], [9, 9]]\<rparr>\<rparr>)"
  using maximum_same_type_selects_rows [of "[2, 4, 3]" "[1, 5, 3]"
      "\<lparr>ncols = 2, rows = [[1, 0], [0, 1], [1, 1]]\<rparr>"
      "\<lparr>ncols = 2, rows = [[7, 0], [0, 8], [9, 9]]\<rparr>" float64 CSR COO]
  by (simp add: upt_conv_Cons)

subsection \<open>An integer array as first value\<close>

text \<open>
  Claim C1 says that the value of the result is the elementwise maximum, as the
  docstring of \<open>maximum\<close> does. The code departs from it when the first value is an array
  of integers and the second one is not: the result's value is a copy of the first
  array, and the entries taken from the second lose their fraction in it. For the
  integers \<open>[1, 2]\<close> against \<open>[1.5, 0.5]\<close>, with dense Jacobians, the Jacobian rows are
  selected as the claim says (the row of the second operand at index 0, where \<open>1.5\<close> is
  the larger, and the row of the first at index 1), and the value returned is \<open>[1, 2]\<close>,
  not the elementwise maximum \<open>[1.5, 2]\<close>.
\<close>

theorem maximum_integer_first_array_truncates:
  "maximum (Ad \<lparr>val = Array int64 [1, 2], jac = Dense \<lparr>ncols = 2, rows = [[1, 0], [0, 1]]\<rparr>\<rparr>)
           (Ad \<lparr>val = Array float64 [3 / 2, 1 / 2], jac = Dense \<lparr>ncols = 2, rows = [[5, 0], [0, 5]]\<rparr>\<rparr>)
     = Inr (Ad \<lparr>val = Array int64 [1, 2], jac = Dense \<lparr>ncols = 2, rows = [[5, 0], [0, 1]]\<rparr>\<rparr>)
   \<and> map2 max [1, 2] [3 / 2, 1 / 2] = [3 / 2, 2 :: real]"
  using float64_of_int_exact [of 1] float64_of_int_exact [of 2]
  by (simp add: maximum_def zero_jac_for_def collect_def and_then_def shape_def csr_matrix_def
      maximum_arrays_def ge_inds_def broadcast2_def nonzero_def take_inds_def put_inds_def
      astype_def result_type_def int64_of_float_def select_jac_def slice_mat_def
      assign_rows_def upt_conv_Cons)

subsection \<open>Result kind and constant arguments\<close>

text \<open>
  Claim C2. Whenever \<open>maximum\<close> returns, the result is an AdArray exactly if at least one
  argument is one, and a plain value otherwise. A plain argument is given a zero
  Jacobian: next to an AdArray whose Jacobian is a matrix of shape \<open>(n, m)\<close>, the call with
  the plain value \<open>v\<close> is the call with the AdArray of value \<open>v\<close> and the \<open>n\<close> by \<open>m\<close> zero
  matrix as Jacobian, in either argument position.
\<close>

theorem maximum_result_kind_and_zero_jacobian:
  assumes "maximum var_0 var_1 = Inr r" and "shape (jac a) = Inr (n, m)"
  shows "(is_Ad r \<longleftrightarrow> is_Ad var_0 \<or> is_Ad var_1)
       \<and> maximum (Ad a) (Plain v)
           = maximum (Ad a)
               (Ad \<lparr>val = v, jac = Sparse CSR \<lparr>ncols = m, rows = replicate n (replicate m 0)\<rparr>\<rparr>)
       \<and> maximum (Plain v) (Ad a)
           = maximum (Ad \<lparr>val = v, jac = Sparse CSR \<lparr>ncols = m, rows = replicate n (replicate m 0)\<rparr>\<rparr>)
               (Ad a)"
  using maximum_result_kind [OF assms(1)] maximum_plain_second [OF assms(2)]
    maximum_plain_first [OF assms(2)]
  by (simp add: csr_matrix_def)

theorem maximum_result_kind_and_zero_jacobian_witness:
  "maximum (Plain (Scalar (PyFloat 1))) (Plain (Array float64 [0, 2])) = Inr (Plain (Array float64 [1, 2]))
   \<and> shape (jac \<lparr>val = Array float64 [1, 5], jac = Sparse CSC \<lparr>ncols = 2, rows = [[1, 0], [0, 1]]\<rparr>\<rparr>) = Inr (2, 2)
   \<and> \<not> is_Ad (Plain (Array float64 [1, 2]))
   \<and> maximum (Ad \<lparr>val = Array float64 [1, 5], jac = Sparse CSC \<lparr>ncols = 2, rows = [[1, 0], [0, 1]]\<rparr>\<rparr>)
         (Plain (Array float64 [3, 3]))
     = maximum (Ad \<lparr>val = Array float64 [1, 5], jac = Sparse CSC \<lparr>ncols = 2, rows = [[1, 0], [0, 1]]\<rparr>\<rparr>)
         (Ad \<lparr>val = Array float64 [3, 3], jac = Sparse CSR \<lparr>ncols = 2, rows = [[0, 0], [0, 0]]\<rparr>\<rparr>)"
proof -
  let ?a = "\<lparr>val = Array float64 [1, 5], jac = Sparse CSC \<lparr>ncols = 2, rows = [[1, 0], [0, 1]]\<rparr>\<rparr>"
  have run: "maximum (Plain (Scalar (PyFloat 1))) (Plain (Array float64 [0, 2]))
      = Inr (Plain (Array float64 [1, 2]))"
    by (simp add: maximum_def number_as_def as_float64_def)
  have sh: "shape (jac ?a) = Inr (2, 2)"
    by (simp add: shape_def)
  show ?thesis
    using maximum_result_kind_and_zero_jacobian [OF run sh, of "Array float64 [3, 3]"] run sh
    by (simp add: eval_nat_numeral)
qed

subsection \<open>Broadcasting a Python number\<close>

lemma map2_max_replicate_left:
  "map2 max (replicate (length xs) c) xs = map (max c) (xs :: real list)"
  by (auto intro!: nth_equalityI)

lemma map2_max_replicate_right:
  "map2 max xs (replicate (length xs) c) = map (\<lambda>x. max x c) (xs :: real list)"
  by (auto intro!: nth_equalityI)

lemma maximum_scalar_first_sparse:
  assumes "fits_float64 c" and "length (rows A) = length xs"
  shows "maximum (Plain (Scalar c)) (Ad \<lparr>val = Array float64 xs, jac = Sparse f A\<rparr>)
      = Inr (Ad \<lparr>val = Array float64 (map (max (number_value c)) xs),
                 jac = Sparse CSR
                   \<lparr>ncols = ncols A,
                    rows = map (\<lambda>i. if number_value c > xs ! i then replicate (ncols A) 0 else rows A ! i)
                             [0..<length xs]\<rparr>\<rparr>)"
proof -
  let ?Z = "\<lparr>ncols = ncols A, rows = replicate (length xs) (replicate (ncols A) 0)\<rparr>"
  let ?c = "number_value c"
  have "maximum (Plain (Scalar c)) (Ad \<lparr>val = Array float64 xs, jac = Sparse f A\<rparr>)
      = maximum (Ad \<lparr>val = Array float64 (replicate (length xs) ?c), jac = Sparse CSR ?Z\<rparr>)
          (Ad \<lparr>val = Array float64 xs, jac = Sparse f A\<rparr>)"
    using assms
    by (simp add: maximum_def zero_jac_for_def collect_def and_then_def shape_def csr_matrix_def
        broadcast_ones number_as_def as_float64_fits)
  also have "\<dots> = Inr (Ad \<lparr>val = Array float64 (map2 max (replicate (length xs) ?c) xs),
                 jac = Sparse CSR
                   \<lparr>ncols = ncols ?Z,
                    rows = map (\<lambda>i. if replicate (length xs) ?c ! i > xs ! i then rows ?Z ! i else rows A ! i)
                             [0..<length (replicate (length xs) ?c)]\<rparr>\<rparr>)"
    using assms by (subst maximum_sparse_sparse) simp_all
  finally show ?thesis
    by (simp add: map2_max_replicate_left cong: map_cong)
qed

lemma maximum_scalar_second_sparse:
  assumes "fits_float64 c" and "length (rows A) = length xs"
  shows "maximum (Ad \<lparr>val = Array float64 xs, jac = Sparse f A\<rparr>) (Plain (Scalar c))
      = Inr (Ad \<lparr>val = Array float64 (map (\<lambda>x. max x (number_value c)) xs),
                 jac = Sparse (if f = CSC then CSC else CSR)
                   \<lparr>ncols = ncols A,
                    rows = map (\<lambda>i. if xs ! i > number_value c then rows A ! i else replicate (ncols A) 0)
                             [0..<length xs]\<rparr>\<rparr>)"
proof -
  let ?Z = "\<lparr>ncols = ncols A, rows = replicate (length xs) (replicate (ncols A) 0)\<rparr>"
  let ?c = "number_value c"
  have "maximum (Ad \<lparr>val = Array float64 xs, jac = Sparse f A\<rparr>) (Plain (Scalar c))
      = maximum (Ad \<lparr>val = Array float64 xs, jac = Sparse f A\<rparr>)
          (Ad \<lparr>val = Array float64 (replicate (length xs) ?c), jac = Sparse CSR ?Z\<rparr>)"
    using assms
    by (simp add: maximum_def zero_jac_for_def collect_def and_then_def shape_def csr_matrix_def
        broadcast_ones number_as_def as_float64_fits)
  also have "\<dots> = Inr (Ad \<lparr>val = Array float64 (map2 max xs (replicate (length xs) ?c)),
                 jac = Sparse (if f = CSC then CSC else CSR)
                   \<lparr>ncols = ncols A,
                    rows = map (\<lambda>i. if xs ! i > replicate (length xs) ?c ! i then rows A ! i else rows ?Z ! i)
                             [0..<length xs]\<rparr>\<rparr>)"
    using assms by (subst maximum_sparse_sparse) simp_all
  finally show ?thesis
    by (simp add: map2_max_replicate_right cong: map_cong)
qed

lemma np_maximum_number_array:
  assumes "fits_float64 c"
  shows "np_maximum (Scalar c) (Array float64 xs) = Inr (Array float64 (map (max (number_value c)) xs))"
    and "np_maximum (Array float64 xs) (Scalar c) = Inr (Array float64 (map (\<lambda>x. max x (number_value c)) xs))"
  using assms by (simp_all add: number_as_def as_float64_fits)

text \<open>
  Claim C6, as stated, fails for an operand of length one that is an array: only a Python
  number is broadcast. An array of length one next to an AdArray of three entries is
  compared by numpy's own broadcasting, the comparison holds at the indices 0 and 2, and
  reading the array of length one at those indices raises the IndexError.
\<close>

theorem maximum_length_one_array_counterexample:
  "maximum (Ad \<lparr>val = Array float64 [1, 5, 3], jac = Sparse CSR \<lparr>ncols = 1, rows = [[1], [1], [1]]\<rparr>\<rparr>)
     (Plain (Array float64 [4])) = Inl IndexOutOfBounds"
  by (simp add: maximum_def zero_jac_for_def collect_def and_then_def shape_def csr_matrix_def
      maximum_arrays_def ge_inds_def broadcast2_def nonzero_def take_inds_def upt_conv_Cons)

text \<open>
  Claim C6, amended. When one argument is a plain Python number (a \<open>float\<close>, or an \<open>int\<close>
  of magnitude up to \<open>2 ^ 53\<close>) and the other is a plain floating-point array, or an
  AdArray whose value is a floating-point array and whose Jacobian is a sparse matrix
  with one row per entry, the number is broadcast to the array's length before the
  elementwise maximum is taken, in either argument position, and the result has the
  array's length. Next to an AdArray the number contributes zero rows to the Jacobian.
\<close>

theorem maximum_broadcasts_scalar:
  assumes "fits_float64 c" and "length (rows A) = length xs"
  shows "maximum (Plain (Scalar c)) (Plain (Array float64 xs))
         = Inr (Plain (Array float64 (map (max (number_value c)) xs)))
     \<and> maximum (Plain (Array float64 xs)) (Plain (Scalar c))
         = Inr (Plain (Array float64 (map (\<lambda>x. max x (number_value c)) xs)))
     \<and> maximum (Plain (Scalar c)) (Ad \<lparr>val = Array float64 xs, jac = Sparse f A\<rparr>)
         = Inr (Ad \<lparr>val = Array float64 (map (max (number_value c)) xs),
                 jac = Sparse CSR
                   \<lparr>ncols = ncols A,
                    rows = map (\<lambda>i. if number_value c > xs ! i then replicate (ncols A) 0 else rows A ! i)
                             [0..<length xs]\<rparr>\<rparr>)
     \<and> maximum (Ad \<lparr>val = Array float64 xs, jac = Sparse f A\<rparr>) (Plain (Scalar c))
         = Inr (Ad \<lparr>val = Array float64 (map (\<lambda>x. max x (number_value c)) xs),
                 jac = Sparse (if f = CSC then CSC else CSR)
                   \<lparr>ncols = ncols A,
                    rows = map (\<lambda>i. if xs ! i > number_value c then rows A ! i else replicate (ncols A) 0)
                             [0..<length xs]\<rparr>\<rparr>)
     \<and> length (map (max (number_value c)) xs) = length xs"
  using assms
  by (simp add: maximum_scalar_first_sparse maximum_scalar_second_sparse)
     (simp add: maximum_def number_as_def as_float64_fits)

theorem maximum_broadcasts_scalar_witness:
  "fits_float64 (PyInt 3)
   \<and> maximum (Ad \<lparr>val = Array float64 [1, 5, 3], jac = Sparse COO \<lparr>ncols = 2, rows = [[1, 0], [0, 1], [1, 1]]\<rparr>\<rparr>)
           (Plain (Scalar (PyInt 3)))
     = Inr (Ad \<lparr>val = Array float64 [3, 5, 3],
                jac = Sparse CSR \<lparr>ncols = 2, rows = [[0, 0], [0, 1], [0, 0]]\<rparr>\<rparr>)"
  using maximum_broadcasts_scalar [of "PyInt 3" "\<lparr>ncols = 2, rows = [[1, 0], [0, 1], [1, 1]]\<rparr>" "[1, 5, 3]" COO]
  by (simp add: fits_float64_def number_value_def upt_conv_Cons eval_nat_numeral)

subsection \<open>Two Python numbers\<close>




text \<open>
  An integer beyond \<open>2 ^ 53\<close> next to a \<open>float\<close> is rounded by the conversion:
  \<open>np.max([2 ** 53 + 1, 1.0])\<close> is \<open>2 ** 53\<close>.
\<close>

lemma np_max_rounds_large_integer:
  "np_max (PyInt (2 ^ 53 + 1)) (PyFloat 1) = PyFloat (2 ^ 53)"
proof -
  have "spacing (2 ^ 53 + 1) = 2"
    by (subst spacing.simps, subst spacing.simps) simp
  then have "nearest_even (2 ^ 53 + 1) = 2 ^ 53"
    by (simp add: nearest_even_def Let_def)
  moreover have "nat (2 ^ 53 + 1) = 2 ^ 53 + 1"
    by simp
  ultimately show ?thesis
    by (simp add: np_max_def scalar_max_def float64_of_int_def)
qed

text \<open>
  An AdArray whose Jacobian is a number, which is what the two-scalar case returns, cannot
  be the first argument of a further call: the look-up of its \<open>.shape\<close> raises.
\<close>

lemma maximum_number_jacobian_raises:
  "maximum (Ad \<lparr>val = v, jac = Number z\<rparr>) var_1 = Inl NoAttribute"
  by (simp add: maximum_def zero_jac_for_def and_then_def shape_def split: operand.splits)

subsection \<open>The early return for a numeric Jacobian\<close>

text \<open>
  An AdArray with an array value that \<open>maximum\<close> returns has a matrix as Jacobian: the
  return of \<open>AdArray(max_val, 0)\<close> is never taken.
\<close>

lemma select_jac_not_Number: "select_jac j0 j1 inds = Inr J \<Longrightarrow> \<not> is_Number J"
  by (auto simp: select_jac_def and_then_def Let_def split: jacobian.splits sum.splits if_splits)

lemma maximum_arrays_jacobian_is_matrix:
  "maximum_arrays s xs t ys j0 j1 = Inr (Ad r) \<Longrightarrow> \<not> is_Number j0 \<Longrightarrow> \<not> is_Number (jac r)"
  by (auto simp: maximum_arrays_def and_then_def split: sum.splits jacobian.splits
      dest: select_jac_not_Number)

lemma zero_jac_for_not_Number:
  "zero_jac_for var_0 var_1 = Inr z \<Longrightarrow> is_Ad var_0 \<or> is_Ad var_1 \<Longrightarrow>
     \<not> is_Number (snd (collect z var_0))"
  by (auto simp: zero_jac_for_def collect_def and_then_def shape_def csr_matrix_def
      split: operand.splits sum.splits jacobian.splits)

lemma maximum_array_jacobian_is_matrix:
  assumes "maximum var_0 var_1 = Inr (Ad r)" and "val r = Array t zs"
  shows "\<not> is_Number (jac r)"
proof -
  have ad: "is_Ad var_0 \<or> is_Ad var_1"
    using maximum_result_kind [OF assms(1)] by simp
  then obtain z where z: "zero_jac_for var_0 var_1 = Inr z"
    using assms(1)
    by (cases "zero_jac_for var_0 var_1")
       (auto simp: maximum_def and_then_def split: operand.splits)
  from zero_jac_for_not_Number [OF z ad]
  have nn: "\<not> is_Number (snd (collect z var_0))" .
  from assms ad z
  have "\<exists>s xs u ys. maximum_arrays s xs u ys (snd (collect z var_0)) (snd (collect z var_1)) = Inr (Ad r)"
    by (auto simp: maximum_def and_then_def Let_def
        split: operand.splits prod.splits ndvalue.splits)
  with nn show ?thesis
    by (auto dest: maximum_arrays_jacobian_is_matrix)
qed


section \<open>Properties of \<open>maximum\<close> on objects\<close>

subsection \<open>The store only grows\<close>

lemmas prog_defs = return_def raise_def lift_def seq_def new_def deref_def store_def

lemma select_jac_h_frame:
  "select_jac_h m0 j1 inds h = (res, h') \<Longrightarrow> prefix h h'"
  unfolding select_jac_h_def tocsr_def slice_mat_h_def merge_matrices_h_def getitem_rows_def
    setitem_rows_def prog_defs
  by (auto split: if_splits sum.splits obj.splits jac_ref.splits prod.splits
      simp: nth_append list_update_append)

lemma select_jac_h_fresh:
  "select_jac_h m0 j1 inds h = (Inr r, h') \<Longrightarrow> length h \<le> r \<and> r < length h'"
  unfolding select_jac_h_def tocsr_def slice_mat_h_def merge_matrices_h_def getitem_rows_def
    setitem_rows_def prog_defs
  by (auto split: if_splits sum.splits obj.splits jac_ref.splits prod.splits simp: nth_append)

lemma prefix_snoc_trans: "prefix (h @ [x]) h' \<Longrightarrow> prefix h h'"
  by (meson append_prefixD)

lemma maximum_arrays_h_frame:
  "maximum_arrays_h r0 r1 j0 j1 h = (res, h') \<Longrightarrow> prefix h h'"
  unfolding maximum_arrays_h_def get_array_def setitem_def prog_defs
  by (auto split: if_splits sum.splits obj.splits jac_ref.splits prod.splits
      simp: nth_append dest!: select_jac_h_frame intro: prefix_snoc_trans)

lemma broadcast_h_frame:
  "broadcast_h r c h = (res, h') \<Longrightarrow> prefix h h'"
  unfolding broadcast_h_def get_array_def prog_defs
  by (auto split: if_splits sum.splits obj.splits prod.splits simp: nth_append)

lemma zero_jac_for_h_frame:
  "zero_jac_for_h a b h = (res, h') \<Longrightarrow> prefix h h'"
  unfolding zero_jac_for_h_def load_jac_def new_jac_def csr_matrix_def prog_defs
  by (auto split: if_splits sum.splits obj.splits prod.splits operand_ref.splits jac_ref.splits jacobian.splits simp: nth_append)

lemma np_maximum_h_frame:
  "np_maximum_h a b h = (res, h') \<Longrightarrow> prefix h h'"
  unfolding np_maximum_h_def load_value_def new_value_def get_array_def prog_defs
  by (auto split: if_splits sum.splits obj.splits prod.splits value_ref.splits ndvalue.splits simp: nth_append)

lemma seq_frame:
  assumes "seq m f h = (res, h')"
    and "\<And>r h1. m h = (r, h1) \<Longrightarrow> prefix h h1"
    and "\<And>x h1. m h = (Inr x, h1) \<Longrightarrow> f x h1 = (res, h') \<Longrightarrow> prefix h1 h'"
  shows "prefix h h'"
  using assms by (auto simp: seq_def split: prod.splits sum.splits) 

lemma maximum_h_frame:
  "maximum_h a b h = (res, h') \<Longrightarrow> prefix h h'"
  unfolding maximum_h_def
  by (auto split: operand_ref.splits prod.splits value_ref.splits simp: Let_def return_def
    elim!: seq_frame intro: zero_jac_for_h_frame np_maximum_h_frame broadcast_h_frame maximum_arrays_h_frame)


subsection \<open>Agreement with the pure model\<close>

lemma prefix_nth: "prefix h h' \<Longrightarrow> p < length h \<Longrightarrow> h' ! p = h ! p"
  by (auto simp: prefix_def nth_append)

lemma prefix_length: "prefix h h' \<Longrightarrow> length h \<le> length h'"
  by (auto simp: prefix_def)

lemma value_at_prefix: "prefix h h' \<Longrightarrow> value_at h v = Some V \<Longrightarrow> value_at h' v = Some V"
  by (auto simp: value_at_def prefix_def nth_append split: value_ref.splits if_splits)

lemma jac_at_prefix: "prefix h h' \<Longrightarrow> jac_at h j = Some J \<Longrightarrow> jac_at h' j = Some J"
  by (auto simp: jac_at_def prefix_def nth_append split: jac_ref.splits if_splits)

lemma operand_at_prefix: "prefix h h' \<Longrightarrow> operand_at h a = Some A \<Longrightarrow> operand_at h' a = Some A"
  by (auto simp: operand_at_def split: operand_ref.splits option.splits
      dest: value_at_prefix jac_at_prefix)

lemma select_jac_h_refines:
  assumes "jac_at h (MatrixRef m0) = Some J0" and "jac_at h j1 = Some J1"
    and "select_jac_h m0 j1 inds h = (res, h')"
  shows "refines res (select_jac J0 J1 inds) (\<lambda>r. jac_at h' (MatrixRef r))"
  using assms
  unfolding select_jac_h_def tocsr_def slice_mat_h_def merge_matrices_h_def getitem_rows_def
    setitem_rows_def prog_defs refines_def select_jac_def jac_at_def and_then_def
  by (auto split: if_splits sum.splits obj.splits jac_ref.splits prod.splits
      simp: nth_append list_update_append Let_def)


lemma refines_InlD: "refines (Inl e) pure rd \<longleftrightarrow> pure = Inl e"
  by (simp add: refines_def)

lemma maximum_arrays_h_refines:
  assumes v0: "value_at h (ArrayRef r0) = Some (Array t0 xs)"
    and v1: "value_at h (ArrayRef r1) = Some (Array t1 ys)"
    and j0: "jac_at h j0 = Some J0" and j1: "jac_at h j1 = Some J1"
    and run: "maximum_arrays_h r0 r1 j0 j1 h = (res, h')"
  shows "refines res (maximum_arrays t0 xs t1 ys J0 J1) (operand_at h')"
proof -
  from v0 have r0: "r0 < length h" "h ! r0 = NdArray t0 xs"
    by (auto simp: value_at_def split: if_splits obj.splits)
  from v1 have r1: "r1 < length h" "h ! r1 = NdArray t1 ys"
    by (auto simp: value_at_def split: if_splits obj.splits)
  show ?thesis
  proof (cases "ge_inds t1 ys t0 xs")
    case (Inl e)
    with run r0 r1 show ?thesis
      by (auto simp: maximum_arrays_h_def get_array_def prog_defs maximum_arrays_def
          and_then_def refines_def)
  next
    case inds: (Inr inds)
    show ?thesis
    proof (cases "take_inds ys inds")
      case (Inl e)
      with run r0 r1 inds show ?thesis
        by (auto simp: maximum_arrays_h_def get_array_def prog_defs maximum_arrays_def
            and_then_def refines_def)
    next
      case picked: (Inr picked)
      show ?thesis
      proof (cases "put_inds xs inds (map (astype t1 t0) picked)")
        case (Inl e)
        with run r0 r1 inds picked show ?thesis
          by (auto simp: maximum_arrays_h_def get_array_def setitem_def prog_defs
              maximum_arrays_def and_then_def refines_def)
      next
        case max_val: (Inr max_val)
        let ?h2 = "h @ [NdArray t0 max_val]"
        have pre: "prefix h ?h2" by simp
        show ?thesis
        proof (cases j0)
          case (JacNumber z)
          with run r0 r1 inds picked max_val j0 j1 show ?thesis
            by (auto simp: maximum_arrays_h_def get_array_def setitem_def prog_defs
                maximum_arrays_def and_then_def refines_def jac_at_def operand_at_def value_at_def
                split: jac_ref.splits if_splits obj.splits)
        next
          case (MatrixRef m0)
          obtain rj hj where sel: "select_jac_h m0 j1 inds ?h2 = (rj, hj)"
            by (cases "select_jac_h m0 j1 inds ?h2")
          have J0': "jac_at ?h2 (MatrixRef m0) = Some J0"
            using jac_at_prefix [OF pre] j0 MatrixRef by simp
          have J1': "jac_at ?h2 j1 = Some J1"
            using jac_at_prefix [OF pre] j1 by simp
          have ref: "refines rj (select_jac J0 J1 inds) (\<lambda>r. jac_at hj (MatrixRef r))"
            using select_jac_h_refines [OF J0' J1' sel] .
          have fr: "prefix ?h2 hj" using select_jac_h_frame [OF sel] .
          have at: "length h < length hj" "hj ! length h = NdArray t0 max_val"
            using prefix_length [OF fr] prefix_nth [OF fr, of "length h"] by simp_all
          have notnum: "\<not> is_Number J0"
            using j0 MatrixRef by (auto simp: jac_at_def split: if_splits obj.splits)
          have runeq: "(res, h') = (case rj of Inl e \<Rightarrow> (Inl e, hj)
              | Inr mj \<Rightarrow> (Inr (AdRef \<lparr>val_ref = ArrayRef (length h), jac_ref = MatrixRef mj\<rparr>), hj))"
            using run r0 r1 inds picked max_val MatrixRef sel
            by (simp add: maximum_arrays_h_def get_array_def setitem_def prog_defs split: sum.splits)
          have pure: "maximum_arrays t0 xs t1 ys J0 J1
              = and_then (select_jac J0 J1 inds) (\<lambda>max_jac. Inr (Ad \<lparr>val = Array t0 max_val, jac = max_jac\<rparr>))"
            using inds picked max_val notnum
            by (cases J0) (simp_all add: maximum_arrays_def and_then_def)
          show ?thesis
            using runeq ref at
            by (cases rj) (auto simp: pure refines_def and_then_def operand_at_def value_at_def)
        qed
      qed
    qed
  qed
qed


lemma np_maximum_h_refines:
  assumes "value_at h p0 = Some a" and "value_at h p1 = Some b"
    and "np_maximum_h p0 p1 h = (res, h')"
  shows "refines res (np_maximum a b) (value_at h')"
  using assms
  unfolding np_maximum_h_def load_value_def new_value_def get_array_def prog_defs refines_def
    value_at_def
  by (cases "np_maximum a b")
     (auto split: value_ref.splits if_splits obj.splits ndvalue.splits)

lemma zero_jac_for_h_refines:
  assumes "operand_at h a = Some A" and "operand_at h b = Some B"
    and "zero_jac_for_h a b h = (res, h')"
  shows "refines res (zero_jac_for A B) (jac_at h')"
  using assms
  unfolding zero_jac_for_h_def load_jac_def new_jac_def csr_matrix_def prog_defs refines_def
    zero_jac_for_def operand_at_def jac_at_def and_then_def
  by (auto split: operand_ref.splits option.splits jac_ref.splits if_splits obj.splits sum.splits)

lemma collect_h_refines:
  assumes "jac_at h z = Some Z" and "operand_at h var = Some V"
  shows "value_at h (fst (collect_h z var)) = Some (fst (collect Z V))
       \<and> jac_at h (snd (collect_h z var)) = Some (snd (collect Z V))"
  using assms
  by (auto simp: collect_h_def collect_def operand_at_def
      split: operand_ref.splits option.splits)

lemma broadcast_h_refines:
  assumes "value_at h (ArrayRef r) = Some (Array t xs)"
    and "broadcast_h r c h = (res, h')"
  shows "\<exists>r'. res = Inr r'
           \<and> value_at h' (ArrayRef r')
               = Some (Array (fst (times_number t (ones_like xs) c))
                         (snd (times_number t (ones_like xs) c)))"
  using assms
  unfolding broadcast_h_def get_array_def prog_defs value_at_def
  by (auto split: if_splits obj.splits simp: nth_append)

lemma maximum_h_refines:
  assumes a: "operand_at h a = Some A" and b: "operand_at h b = Some B"
    and run: "maximum_h a b h = (res, h')"
  shows "refines res (maximum A B) (operand_at h')"
proof (cases "\<exists>p0 p1. a = PlainRef p0 \<and> b = PlainRef p1")
  case True
  then obtain p0 p1 where ab: "a = PlainRef p0" "b = PlainRef p1" by auto
  from a b ab obtain P0 P1 where P: "value_at h p0 = Some P0" "value_at h p1 = Some P1"
    "A = Plain P0" "B = Plain P1"
    by (auto simp: operand_at_def)
  obtain rv hv where np: "np_maximum_h p0 p1 h = (rv, hv)"
    by (cases "np_maximum_h p0 p1 h")
  from np_maximum_h_refines [OF P(1,2) np] run ab np P(3,4) show ?thesis
    by (cases rv; cases "np_maximum P0 P1")
       (auto simp: maximum_h_def maximum_def prog_defs refines_def operand_at_def)
next
  case False
  obtain rz hz where z: "zero_jac_for_h a b h = (rz, hz)"
    by (cases "zero_jac_for_h a b h")
  have zref: "refines rz (zero_jac_for A B) (jac_at hz)"
    using zero_jac_for_h_refines [OF a b z] .
  have zfr: "prefix h hz" using zero_jac_for_h_frame [OF z] .
  have notplain: "\<not> (\<exists>P0 P1. A = Plain P0 \<and> B = Plain P1)"
    using False a b by (auto simp: operand_at_def split: operand_ref.splits option.splits)
  have run': "(res, h') = seq (zero_jac_for_h a b) (\<lambda>zero_jac.
            let (v0, j0) = collect_h zero_jac a;
                (v1, j1) = collect_h zero_jac b
            in case v0 of
                 PyNumber x \<Rightarrow>
                   (case v1 of
                      PyNumber y \<Rightarrow>
                        return (AdRef \<lparr>val_ref = PyNumber (np_max x y), jac_ref = JacNumber 0\<rparr>)
                    | ArrayRef r1 \<Rightarrow>
                        seq (broadcast_h r1 x) (\<lambda>r0. maximum_arrays_h r0 r1 j0 j1))
               | ArrayRef r0 \<Rightarrow>
                   (case v1 of
                      PyNumber y \<Rightarrow>
                        seq (broadcast_h r0 y) (\<lambda>r1. maximum_arrays_h r0 r1 j0 j1)
                    | ArrayRef r1 \<Rightarrow> maximum_arrays_h r0 r1 j0 j1)) h"
    using run False by (auto simp: maximum_h_def split: operand_ref.splits)
  have pure: "maximum A B = and_then (zero_jac_for A B) (\<lambda>zero_jac.
            let (v0, j0) = collect zero_jac A;
                (v1, j1) = collect zero_jac B
            in case v0 of
                 Scalar x \<Rightarrow>
                   (case v1 of
                      Scalar y \<Rightarrow> Inr (Ad \<lparr>val = Scalar (np_max x y), jac = Number 0\<rparr>)
                    | Array t1 ys \<Rightarrow>
                        (let (t0, xs) = times_number t1 (ones_like ys) x
                         in maximum_arrays t0 xs t1 ys j0 j1))
               | Array t0 xs \<Rightarrow>
                   (case v1 of
                      Scalar y \<Rightarrow>
                        (let (t1, ys) = times_number t0 (ones_like xs) y
                         in maximum_arrays t0 xs t1 ys j0 j1)
                    | Array t1 ys \<Rightarrow> maximum_arrays t0 xs t1 ys j0 j1))"
    using notplain by (auto simp: maximum_def split: operand.splits)
  show ?thesis
  proof (cases rz)
    case (Inl e)
    with zref run' z show ?thesis
      by (auto simp: pure refines_def seq_def and_then_def)
  next
    case (Inr zj)
    with zref obtain Z where Z: "jac_at hz zj = Some Z" "zero_jac_for A B = Inr Z"
      by (auto simp: refines_def)
    have a': "operand_at hz a = Some A" and b': "operand_at hz b = Some B"
      using operand_at_prefix [OF zfr] a b by auto
    obtain v0 j0 where c0: "collect_h zj a = (v0, j0)" by (cases "collect_h zj a")
    obtain v1 j1 where c1: "collect_h zj b = (v1, j1)" by (cases "collect_h zj b")
    obtain V0 J0 where C0: "collect Z A = (V0, J0)" by (cases "collect Z A")
    obtain V1 J1 where C1: "collect Z B = (V1, J1)" by (cases "collect Z B")
    from collect_h_refines [OF Z(1) a'] c0 C0
    have r0: "value_at hz v0 = Some V0" "jac_at hz j0 = Some J0" by simp_all
    from collect_h_refines [OF Z(1) b'] c1 C1
    have r1: "value_at hz v1 = Some V1" "jac_at hz j1 = Some J1" by simp_all
    show ?thesis
    proof (cases v0)
      case n0: (PyNumber x)
      with r0 have V0: "V0 = Scalar x" by (simp add: value_at_def)
      show ?thesis
      proof (cases v1)
        case (PyNumber y)
        with r1 have "V1 = Scalar y" by (simp add: value_at_def)
        with run' z Inr c0 c1 n0 PyNumber V0 Z C0 C1 show ?thesis
          by (auto simp: pure refines_def seq_def and_then_def return_def operand_at_def
              value_at_def jac_at_def)
      next
        case (ArrayRef q1)
        with r1 obtain t1 ys where V1: "V1 = Array t1 ys" "value_at hz (ArrayRef q1) = Some (Array t1 ys)"
          by (auto simp: value_at_def split: if_splits obj.splits)
        obtain rb hb where bc: "broadcast_h q1 x hz = (rb, hb)" by (cases "broadcast_h q1 x hz")
        from broadcast_h_refines [OF V1(2) bc] obtain q0 where q0: "rb = Inr q0"
          "value_at hb (ArrayRef q0)
             = Some (Array (fst (times_number t1 (ones_like ys) x))
                       (snd (times_number t1 (ones_like ys) x)))"
          by auto
        have bfr: "prefix hz hb" using broadcast_h_frame [OF bc] .
        have m: "maximum_arrays_h q0 q1 j0 j1 hb = (res, h')"
          using run' z Inr c0 c1 n0 ArrayRef bc q0 by (simp add: seq_def)
        from maximum_arrays_h_refines [OF q0(2) value_at_prefix [OF bfr V1(2)]
            jac_at_prefix [OF bfr r0(2)] jac_at_prefix [OF bfr r1(2)] m]
        show ?thesis using Z C0 C1 V0 V1 by (simp add: pure and_then_def case_prod_beta)
      qed
    next
      case a0: (ArrayRef q0)
      with r0 obtain t0 xs where V0: "V0 = Array t0 xs" "value_at hz (ArrayRef q0) = Some (Array t0 xs)"
        by (auto simp: value_at_def split: if_splits obj.splits)
      show ?thesis
      proof (cases v1)
        case (PyNumber y)
        with r1 have V1: "V1 = Scalar y" by (simp add: value_at_def)
        obtain rb hb where bc: "broadcast_h q0 y hz = (rb, hb)" by (cases "broadcast_h q0 y hz")
        from broadcast_h_refines [OF V0(2) bc] obtain q1 where q1: "rb = Inr q1"
          "value_at hb (ArrayRef q1)
             = Some (Array (fst (times_number t0 (ones_like xs) y))
                       (snd (times_number t0 (ones_like xs) y)))"
          by auto
        have bfr: "prefix hz hb" using broadcast_h_frame [OF bc] .
        have m: "maximum_arrays_h q0 q1 j0 j1 hb = (res, h')"
          using run' z Inr c0 c1 a0 PyNumber bc q1 by (simp add: seq_def)
        from maximum_arrays_h_refines [OF value_at_prefix [OF bfr V0(2)] q1(2)
            jac_at_prefix [OF bfr r0(2)] jac_at_prefix [OF bfr r1(2)] m]
        show ?thesis using Z C0 C1 V0 V1 by (simp add: pure and_then_def case_prod_beta)
      next
        case (ArrayRef q1)
        with r1 obtain t1 ys where V1: "V1 = Array t1 ys" "value_at hz (ArrayRef q1) = Some (Array t1 ys)"
          by (auto simp: value_at_def split: if_splits obj.splits)
        have m: "maximum_arrays_h q0 q1 j0 j1 hz = (res, h')"
          using run' z Inr c0 c1 a0 ArrayRef by (simp add: seq_def)
        from maximum_arrays_h_refines [OF V0(2) V1(2) r0(2) r1(2) m]
        show ?thesis using Z C0 C1 V0 V1 by (simp add: pure and_then_def)
      qed
    qed
  qed
qed

subsection \<open>The result is made of new objects\<close>

lemma maximum_arrays_h_fresh:
  assumes "maximum_arrays_h r0 r1 j0 j1 h = (Inr r, h')"
  shows "\<forall>p \<in> refs_of r. length h \<le> p \<and> p < length h'"
proof -
  have "(\<exists>t xs. h' = h @ [NdArray t xs] \<and> r = AdRef \<lparr>val_ref = ArrayRef (length h), jac_ref = JacNumber 0\<rparr>)
      \<or> (\<exists>t xs m0 inds mj. select_jac_h m0 j1 inds (h @ [NdArray t xs]) = (Inr mj, h')
            \<and> r = AdRef \<lparr>val_ref = ArrayRef (length h), jac_ref = MatrixRef mj\<rparr>)"
    using assms
    unfolding maximum_arrays_h_def get_array_def setitem_def prog_defs
    by (auto split: if_splits sum.splits obj.splits jac_ref.splits prod.splits)
  then show ?thesis
  proof (elim disjE exE conjE)
    fix t xs assume "h' = h @ [NdArray t xs]"
      "r = AdRef \<lparr>val_ref = ArrayRef (length h), jac_ref = JacNumber 0\<rparr>"
    then show ?thesis by (simp add: refs_of_def)
  next
    fix t xs m0 inds mj
    assume sel: "select_jac_h m0 j1 inds (h @ [NdArray t xs]) = (Inr mj, h')"
      and r: "r = AdRef \<lparr>val_ref = ArrayRef (length h), jac_ref = MatrixRef mj\<rparr>"
    from select_jac_h_fresh [OF sel] select_jac_h_frame [OF sel, THEN prefix_length] r
    show ?thesis by (auto simp: refs_of_def)
  qed
qed

lemma np_maximum_h_fresh:
  "np_maximum_h p0 p1 h = (Inr v, h') \<Longrightarrow>
     \<forall>p \<in> refs_of (PlainRef v). length h \<le> p \<and> p < length h'"
  unfolding np_maximum_h_def load_value_def new_value_def get_array_def prog_defs refs_of_def
  by (auto split: if_splits sum.splits obj.splits prod.splits value_ref.splits ndvalue.splits)

lemma maximum_h_fresh:
  assumes "maximum_h a b h = (Inr r, h')"
  shows "\<forall>p \<in> refs_of r. length h \<le> p \<and> p < length h'"
proof (cases "\<exists>p0 p1. a = PlainRef p0 \<and> b = PlainRef p1")
  case True
  with assms show ?thesis
    by (auto simp: maximum_h_def seq_def return_def split: sum.splits prod.splits
        dest!: np_maximum_h_fresh)
next
  case False
  obtain rz hz where z: "zero_jac_for_h a b h = (rz, hz)"
    by (cases "zero_jac_for_h a b h")
  have len: "length h \<le> length hz"
    using zero_jac_for_h_frame [OF z] by (rule prefix_length)
  have "(\<exists>c. r = AdRef \<lparr>val_ref = PyNumber c, jac_ref = JacNumber 0\<rparr>)
      \<or> (\<exists>r0 r1 j0 j1 hb. prefix hz hb \<and> maximum_arrays_h r0 r1 j0 j1 hb = (Inr r, h'))"
    using assms False z
    by (auto simp: maximum_h_def seq_def return_def Let_def
        split: operand_ref.splits sum.splits prod.splits value_ref.splits
        dest: broadcast_h_frame)
  then show ?thesis
  proof
    assume "\<exists>c. r = AdRef \<lparr>val_ref = PyNumber c, jac_ref = JacNumber 0\<rparr>"
    then show ?thesis by (auto simp: refs_of_def)
  next
    assume "\<exists>r0 r1 j0 j1 hb. prefix hz hb \<and> maximum_arrays_h r0 r1 j0 j1 hb = (Inr r, h')"
    then obtain r0 r1 j0 j1 hb where hb: "prefix hz hb"
      and m: "maximum_arrays_h r0 r1 j0 j1 hb = (Inr r, h')" by blast
    from maximum_arrays_h_fresh [OF m] prefix_length [OF hb] len show ?thesis
      by fastforce
  qed
qed

subsection \<open>The arguments survive the call\<close>

text \<open>
  Claim C10. \<open>maximum\<close> never mutates its arguments. Whatever the call returns or
  raises, every object that existed before the call is unchanged after it, so the value
  arrays and Jacobian matrices of both arguments read as before; and a returned result
  consists of objects created during the call: the copies are what is assigned to.
\<close>

theorem maximum_h_keeps_arguments:
  assumes "maximum_h a b h = (res, h')"
  shows "length h \<le> length h' \<and> (\<forall>p < length h. h' ! p = h ! p)
       \<and> (\<forall>A. operand_at h a = Some A \<longrightarrow> operand_at h' a = Some A)
       \<and> (\<forall>B. operand_at h b = Some B \<longrightarrow> operand_at h' b = Some B)
       \<and> (\<forall>r. res = Inr r \<longrightarrow> (\<forall>p \<in> refs_of r. length h \<le> p \<and> p < length h'))"
proof -
  have pre: "prefix h h'" using assms by (rule maximum_h_frame)
  show ?thesis
    using prefix_length [OF pre] prefix_nth [OF pre] operand_at_prefix [OF pre] assms
    by (auto dest: maximum_h_fresh)
qed

theorem maximum_h_keeps_arguments_witness:
  "maximum_h (AdRef \<lparr>val_ref = ArrayRef 0, jac_ref = MatrixRef 1\<rparr>)
      (AdRef \<lparr>val_ref = ArrayRef 2, jac_ref = MatrixRef 3\<rparr>)
      [NdArray float64 [1, 5, 3], SpMatrix CSR \<lparr>ncols = 2, rows = [[1, 0], [0, 1], [1, 1]]\<rparr>,
       NdArray float64 [2, 4, 3], SpMatrix COO \<lparr>ncols = 2, rows = [[7, 0], [0, 8], [9, 9]]\<rparr>]
   = (Inr (AdRef \<lparr>val_ref = ArrayRef 5, jac_ref = MatrixRef 6\<rparr>),
      [NdArray float64 [1, 5, 3], SpMatrix CSR \<lparr>ncols = 2, rows = [[1, 0], [0, 1], [1, 1]]\<rparr>,
       NdArray float64 [2, 4, 3], SpMatrix COO \<lparr>ncols = 2, rows = [[7, 0], [0, 8], [9, 9]]\<rparr>,
       SpMatrix CSR \<lparr>ncols = 2, rows = [[0, 0], [0, 0], [0, 0]]\<rparr>,
       NdArray float64 [2, 5, 3],
       SpMatrix CSR \<lparr>ncols = 2, rows = [[7, 0], [0, 1], [9, 9]]\<rparr>,
       SpMatrix CSR \<lparr>ncols = 2, rows = [[7, 0], [0, 8], [9, 9]]\<rparr>,
       SpMatrix CSR \<lparr>ncols = 2, rows = [[7, 0], [9, 9]]\<rparr>])
   \<and> refs_of (AdRef \<lparr>val_ref = ArrayRef 5, jac_ref = MatrixRef 6\<rparr>) = {5, 6}"
proof -
  let ?h = "[NdArray float64 [1, 5, 3], SpMatrix CSR \<lparr>ncols = 2, rows = [[1, 0], [0, 1], [1, 1]]\<rparr>,
       NdArray float64 [2, 4, 3], SpMatrix COO \<lparr>ncols = 2, rows = [[7, 0], [0, 8], [9, 9]]\<rparr>]"
  let ?a = "AdRef \<lparr>val_ref = ArrayRef 0, jac_ref = MatrixRef 1\<rparr>"
  let ?b = "AdRef \<lparr>val_ref = ArrayRef 2, jac_ref = MatrixRef 3\<rparr>"
  have run: "maximum_h ?a ?b ?h
   = (Inr (AdRef \<lparr>val_ref = ArrayRef 5, jac_ref = MatrixRef 6\<rparr>),
      ?h @ [SpMatrix CSR \<lparr>ncols = 2, rows = [[0, 0], [0, 0], [0, 0]]\<rparr>,
       NdArray float64 [2, 5, 3],
       SpMatrix CSR \<lparr>ncols = 2, rows = [[7, 0], [0, 1], [9, 9]]\<rparr>,
       SpMatrix CSR \<lparr>ncols = 2, rows = [[7, 0], [0, 8], [9, 9]]\<rparr>,
       SpMatrix CSR \<lparr>ncols = 2, rows = [[7, 0], [9, 9]]\<rparr>])"
    by (simp add: maximum_h_def zero_jac_for_h_def load_jac_def new_jac_def csr_matrix_def
        collect_h_def maximum_arrays_h_def get_array_def setitem_def select_jac_h_def tocsr_def
        slice_mat_h_def merge_matrices_h_def prog_defs shape_def ge_inds_def broadcast2_def
        nonzero_def take_inds_def put_inds_def slice_mat_def merge_matrices_def and_then_def
        upt_conv_Cons eval_nat_numeral)
  show ?thesis
    using maximum_h_keeps_arguments [OF run] run
    by (simp add: refs_of_def insert_commute)
qed


section \<open>Properties of evaluation\<close>

subsection \<open>Evaluation only adds objects to the store\<close>

lemma new_value_correct:
  "new_value v h = (res, h') \<Longrightarrow> prefix h h' \<and> (\<exists>r. res = Inr r \<and> value_at h' r = Some v)"
  by (auto simp: new_value_def prog_defs value_at_def split: ndvalue.splits)

lemma new_jac_correct:
  "new_jac J h = (res, h') \<Longrightarrow> prefix h h' \<and> (\<exists>r. res = Inr r \<and> jac_at h' r = Some J)"
  by (auto simp: new_jac_def prog_defs jac_at_def split: jacobian.splits)

lemma new_operand_correct:
  assumes "new_operand V h = (res, h')"
  shows "prefix h h' \<and> (\<exists>r. res = Inr r \<and> operand_at h' r = Some V)"
proof (cases V)
  case (Plain v)
  with assms show ?thesis
    by (auto simp: new_operand_def seq_def return_def operand_at_def
        split: prod.splits sum.splits dest!: new_value_correct)
next
  case (Ad a)
  obtain rv hv where v: "new_value (val a) h = (rv, hv)" by (cases "new_value (val a) h")
  from new_value_correct [OF v] obtain r where r: "prefix h hv" "rv = Inr r"
    "value_at hv r = Some (val a)" by auto
  obtain rj hj where j: "new_jac (jac a) hv = (rj, hj)" by (cases "new_jac (jac a) hv")
  from new_jac_correct [OF j] obtain q where q: "prefix hv hj" "rj = Inr q"
    "jac_at hj q = Some (jac a)" by auto
  from assms Ad v j r q have "res = Inr (AdRef \<lparr>val_ref = r, jac_ref = q\<rparr>)" "h' = hj"
    by (auto simp: new_operand_def seq_def return_def)
  with r q value_at_prefix [OF q(1) r(3)] show ?thesis
    by (auto simp: operand_at_def Ad)
qed

lemma load_operand_frame: "load_operand a h = (res, h') \<Longrightarrow> h' = h"
  by (auto simp: load_operand_def split: option.splits)

lemma call_h_frame: "call_h f rs h = (res, h') \<Longrightarrow> prefix h h'"
proof (induction f rs arbitrary: h res h' rule: call_h.induct)
  case (2 a b)
  then show ?case by (auto dest: maximum_h_frame)
next
  case (3 g a)
  then show ?case
    by (auto simp: seq_def lift_def split: prod.splits sum.splits
        dest!: load_operand_frame new_operand_correct)
next
  case (4 g a b)
  then show ?case
    by (auto simp: seq_def lift_def split: prod.splits sum.splits
        dest!: load_operand_frame new_operand_correct)
qed (auto simp: raise_def)

lemma seq_prefix:
  assumes "seq m f h = (res, h')"
    and "\<And>r h1. m h = (r, h1) \<Longrightarrow> prefix h h1"
    and "\<And>x h1 r h2. f x h1 = (r, h2) \<Longrightarrow> prefix h1 h2"
  shows "prefix h h'"
  using assms by (fastforce simp: seq_def split: prod.splits sum.splits)

lemma evaluate_h_frame:
  "evaluate_h ar x h = (res, h') \<Longrightarrow> prefix h h'"
  and evaluate_all_h_frame: "evaluate_all_h ar xs h = (ress, h') \<Longrightarrow> prefix h h'"
proof (induction ar x and ar xs arbitrary: h res h' and h ress h'
    rule: evaluate_h_evaluate_all_h.induct)
  case (1 ar blocks ndofs)
  then show ?case
    by (auto simp: seq_def split: prod.splits sum.splits dest!: new_operand_correct)
next
  case (2 ar v)
  then show ?case
    by (auto simp: seq_def return_def load_value_def get_array_def deref_def raise_def
        split: prod.splits sum.splits value_ref.splits if_splits obj.splits)
next
  case (3 ar x y)
  show ?case
    apply (rule seq_prefix [OF "3.prems" [unfolded evaluate_h.simps]])
     apply (erule "3.IH"(1))
    apply (erule seq_prefix)
     apply (erule "3.IH"(2))
    apply (auto simp: seq_def lift_def split: prod.splits sum.splits
        dest!: load_operand_frame new_operand_correct)
    done
next
  case (4 ar x y)
  show ?case
    apply (rule seq_prefix [OF "4.prems" [unfolded evaluate_h.simps]])
     apply (erule "4.IH"(1))
    apply (erule seq_prefix)
     apply (erule "4.IH"(2))
    apply (auto simp: seq_def lift_def split: prod.splits sum.splits
        dest!: load_operand_frame new_operand_correct)
    done
next
  case (5 ar c x)
  show ?case
    apply (rule seq_prefix [OF "5.prems" [unfolded evaluate_h.simps]])
     apply (erule "5.IH"(1))
    apply (auto simp: seq_def lift_def split: prod.splits sum.splits
        dest!: load_operand_frame new_operand_correct)
    done
next
  case (6 ar m x)
  show ?case
    apply (rule seq_prefix [OF "6.prems" [unfolded evaluate_h.simps]])
     apply (erule "6.IH"(1))
    apply (auto simp: seq_def lift_def load_jac_def deref_def return_def raise_def
        split: prod.splits sum.splits if_splits obj.splits
        dest!: load_operand_frame new_operand_correct)
    done
next
  case (7 ar f nm children)
  show ?case
    apply (rule seq_prefix [OF "7.prems" [unfolded evaluate_h.simps]])
     apply (erule "7.IH"(1))
    apply (erule call_h_frame)
    done
next
  case (8 ar)
  then show ?case by (simp add: return_def)
next
  case (9 ar x xs)
  show ?case
    apply (rule seq_prefix [OF "9.prems" [unfolded evaluate_all_h.simps]])
     apply (erule "9.IH"(1))
    apply (erule seq_prefix)
     apply (erule "9.IH"(2))
    apply (simp add: return_def)
    done
qed


subsection \<open>Evaluation on the store computes the function of its contents\<close>

lemma value_at_prefix_eq:
  "prefix h h' \<Longrightarrow> (case v of PyNumber _ \<Rightarrow> True | ArrayRef r \<Rightarrow> r < length h)
     \<Longrightarrow> value_at h' v = value_at h v"
  by (auto simp: value_at_def prefix_def nth_append split: value_ref.splits)

lemma jac_at_prefix_eq:
  "prefix h h' \<Longrightarrow> m < length h \<Longrightarrow> jac_at h' (MatrixRef m) = jac_at h (MatrixRef m)"
  by (auto simp: jac_at_def prefix_def nth_append)

lemma variable_value_prefix_eq:
  "prefix h h' \<Longrightarrow> fst ` set blocks \<subseteq> {..<length h}
     \<Longrightarrow> variable_value h' blocks ndofs = variable_value h blocks ndofs"
proof (induction blocks)
  case Nil
  then show ?case by simp
next
  case (Cons b blocks)
  obtain r offset where b: "b = (r, offset)" by (cases b)
  with Cons.prems have r: "r < length h" "r < length h'" "h' ! r = h ! r"
    by (auto simp: prefix_def nth_append)
  with Cons b show ?case by (simp split: obj.splits)
qed

lemma evaluate_prefix_eq:
  "prefix h h' \<Longrightarrow> leaf_refs x \<subseteq> {..<length h} \<Longrightarrow> evaluate ar h' x = evaluate ar h x"
  and evaluate_all_prefix_eq:
  "prefix h h' \<Longrightarrow> leaf_refs_list xs \<subseteq> {..<length h} \<Longrightarrow> evaluate_all ar h' xs = evaluate_all ar h xs"
proof (induction ar h x and ar h xs rule: evaluate_evaluate_all.induct)
  case (1 ar h blocks ndofs)
  then show ?case by (simp add: variable_operand_def variable_value_prefix_eq)
next
  case (2 ar h v)
  then have "value_at h' v = value_at h v"
    by (intro value_at_prefix_eq) (auto split: value_ref.splits)
  then show ?case by simp
next
  case (6 ar h m x)
  then show ?case by (simp add: jac_at_prefix_eq)
qed simp_all

lemma seq_refines:
  assumes run: "seq m k h = (res, h')"
    and m: "\<And>r h1. m h = (r, h1) \<Longrightarrow> refines r pm (rd h1)"
    and k: "\<And>x X h1. m h = (Inr x, h1) \<Longrightarrow> rd h1 x = Some X \<Longrightarrow> pm = Inr X
              \<Longrightarrow> k x h1 = (res, h') \<Longrightarrow> refines res (pk X) rd'"
  shows "refines res (and_then pm pk) rd'"
proof -
  obtain r h1 where r: "m h = (r, h1)" by (cases "m h")
  show ?thesis
  proof (cases r)
    case (Inl e)
    with run r m [OF r] show ?thesis
      by (auto simp: seq_def refines_def and_then_def)
  next
    case (Inr x)
    with m [OF r] obtain X where X: "rd h1 x = Some X" "pm = Inr X"
      by (auto simp: refines_def)
    from run r Inr have "k x h1 = (res, h')" by (simp add: seq_def)
    from k [OF r [unfolded Inr] X this] X(2) show ?thesis
      by (simp add: and_then_def)
  qed
qed

lemma lift_new_operand_refines:
  "seq (lift p) new_operand h = (res, h') \<Longrightarrow> refines res p (operand_at h')"
  by (cases p) (auto simp: seq_def lift_def refines_def dest!: new_operand_correct)

lemma load_operand_eq:
  "operand_at h a = Some A \<Longrightarrow> load_operand a h = (Inr A, h)"
  by (simp add: load_operand_def)

lemma call_h_refines:
  assumes "those (map (operand_at h) rs) = Some Rs" and "call_h f rs h = (res, h')"
  shows "refines res (call f Rs) (operand_at h')"
  using assms
proof (induction f rs arbitrary: Rs rule: call_h.induct)
  case (1 f)
  then show ?case by (auto simp: raise_def refines_def)
next
  case (2 a b)
  then obtain A B where "operand_at h a = Some A" "operand_at h b = Some B" "Rs = [A, B]"
    by (auto split: option.splits)
  with 2 show ?case by (auto dest: maximum_h_refines)
next
  case (3 g a)
  then obtain A where A: "operand_at h a = Some A" "Rs = [A]"
    by (auto split: option.splits)
  with 3 lift_new_operand_refines [of "g A" h res h'] show ?case
    by (auto simp: load_operand_eq seq_def [of "load_operand a"])
next
  case (4 g a b)
  then obtain A B where A: "operand_at h a = Some A" "operand_at h b = Some B" "Rs = [A, B]"
    by (auto split: option.splits)
  with 4 lift_new_operand_refines [of "g A B" h res h'] show ?case
    by (auto simp: load_operand_eq seq_def [of "load_operand a"] seq_def [of "load_operand b"])
qed (auto simp: raise_def refines_def split: option.splits)


lemma load_jac_eq:
  "jac_at h j = Some J \<Longrightarrow> load_jac j h = (Inr J, h)"
  by (auto simp: load_jac_def jac_at_def seq_def deref_def return_def raise_def
      split: jac_ref.splits if_splits obj.splits)

lemma load_jac_none:
  "jac_at h (MatrixRef m) = None \<Longrightarrow> load_jac (MatrixRef m) h = (Inl BadReference, h)"
  by (auto simp: load_jac_def jac_at_def seq_def deref_def return_def raise_def
      split: jac_ref.splits if_splits obj.splits)

lemma binary_node_refines:
  assumes refs: "leaf_refs x \<union> leaf_refs y \<subseteq> {..<length h}"
    and IHx: "\<And>h res h'. leaf_refs x \<subseteq> {..<length h} \<Longrightarrow> evaluate_h ar x h = (res, h')
                \<Longrightarrow> refines res (evaluate ar h x) (operand_at h')"
    and IHy: "\<And>h res h'. leaf_refs y \<subseteq> {..<length h} \<Longrightarrow> evaluate_h ar y h = (res, h')
                \<Longrightarrow> refines res (evaluate ar h y) (operand_at h')"
    and run: "seq (evaluate_h ar x) (\<lambda>a. seq (evaluate_h ar y) (\<lambda>b.
                seq (load_operand a) (\<lambda>A. seq (load_operand b) (\<lambda>B.
                seq (lift (f A B)) new_operand)))) h = (res, h')"
  shows "refines res
           (and_then (evaluate ar h x) (\<lambda>a. and_then (evaluate ar h y) (\<lambda>b. f a b)))
           (operand_at h')"
proof (rule seq_refines [OF run, where rd = operand_at])
  fix r h1 assume "evaluate_h ar x h = (r, h1)"
  then show "refines r (evaluate ar h x) (operand_at h1)"
    using refs by (intro IHx) auto
next
  fix a A h1
  assume x: "evaluate_h ar x h = (Inr a, h1)" and A: "operand_at h1 a = Some A"
    and rest: "seq (evaluate_h ar y) (\<lambda>b.
                seq (load_operand a) (\<lambda>A. seq (load_operand b) (\<lambda>B.
                seq (lift (f A B)) new_operand))) h1 = (res, h')"
  have p1: "prefix h h1" using evaluate_h_frame [OF x] .
  have refs1: "leaf_refs y \<subseteq> {..<length h1}"
    using refs prefix_length [OF p1] by auto
  have eq: "evaluate ar h1 y = evaluate ar h y"
    using refs by (intro evaluate_prefix_eq [OF p1]) auto
  show "refines res (and_then (evaluate ar h y) (\<lambda>b. f A b)) (operand_at h')"
  proof (rule seq_refines [OF rest, where rd = operand_at])
    fix r h2 assume "evaluate_h ar y h1 = (r, h2)"
    from IHy [OF refs1 this] show "refines r (evaluate ar h y) (operand_at h2)"
      by (simp add: eq)
  next
    fix b B h2
    assume y: "evaluate_h ar y h1 = (Inr b, h2)" and B: "operand_at h2 b = Some B"
      and rest2: "seq (load_operand a) (\<lambda>A. seq (load_operand b) (\<lambda>B.
                seq (lift (f A B)) new_operand)) h2 = (res, h')"
    have A2: "operand_at h2 a = Some A"
      using operand_at_prefix [OF evaluate_h_frame [OF y] A] .
    from rest2 have "seq (lift (f A B)) new_operand h2 = (res, h')"
      by (simp add: seq_def [of "load_operand a"] seq_def [of "load_operand b"]
          load_operand_eq [OF A2] load_operand_eq [OF B])
    then show "refines res (f A B) (operand_at h')"
      by (rule lift_new_operand_refines)
  qed
qed

lemma unary_node_refines:
  assumes refs: "leaf_refs x \<subseteq> {..<length h}"
    and IHx: "\<And>h res h'. leaf_refs x \<subseteq> {..<length h} \<Longrightarrow> evaluate_h ar x h = (res, h')
                \<Longrightarrow> refines res (evaluate ar h x) (operand_at h')"
    and run: "seq (evaluate_h ar x) (\<lambda>a. seq (load_operand a) (\<lambda>A. k A)) h = (res, h')"
    and k: "\<And>A h1. prefix h h1 \<Longrightarrow> k A h1 = (res, h') \<Longrightarrow> refines res (f A) (operand_at h')"
  shows "refines res (and_then (evaluate ar h x) f) (operand_at h')"
proof (rule seq_refines [OF run, where rd = operand_at])
  fix r h1 assume "evaluate_h ar x h = (r, h1)"
  then show "refines r (evaluate ar h x) (operand_at h1)"
    using refs by (intro IHx) auto
next
  fix a A h1
  assume x: "evaluate_h ar x h = (Inr a, h1)" and A: "operand_at h1 a = Some A"
    and rest: "seq (load_operand a) (\<lambda>A. k A) h1 = (res, h')"
  from rest have "k A h1 = (res, h')"
    by (simp add: seq_def [of "load_operand a"] load_operand_eq [OF A])
  then show "refines res (f A) (operand_at h')"
    by (rule k [OF evaluate_h_frame [OF x]])
qed

lemma evaluate_h_refines:
  "leaf_refs x \<subseteq> {..<length h} \<Longrightarrow> evaluate_h ar x h = (res, h')
     \<Longrightarrow> refines res (evaluate ar h x) (operand_at h')"
  and evaluate_all_h_refines:
  "leaf_refs_list xs \<subseteq> {..<length h} \<Longrightarrow> evaluate_all_h ar xs h = (ress, h')
     \<Longrightarrow> refines ress (evaluate_all ar h xs) (\<lambda>rs. those (map (operand_at h') rs))"
proof (induction ar x and ar xs arbitrary: h res h' and h ress h'
    rule: evaluate_h_evaluate_all_h.induct)
  case (1 ar blocks ndofs)
  then have "seq (lift (variable_operand h blocks ndofs)) new_operand h = (res, h')"
    by (simp add: seq_def lift_def)
  then show ?case
    by (simp add: lift_new_operand_refines)
next
  case (2 ar v)
  then show ?case
    by (auto simp: seq_def return_def load_value_def get_array_def deref_def raise_def
        refines_def value_at_def operand_at_def
        split: prod.splits sum.splits value_ref.splits if_splits obj.splits)
next
  case (3 ar x y)
  from "3.prems" show ?case
    by (simp only: evaluate_h.simps evaluate.simps leaf_refs.simps)
       (rule binary_node_refines [where f = "add ar"]; (erule (1) "3.IH")?)
next
  case (4 ar x y)
  from "4.prems" show ?case
    by (simp only: evaluate_h.simps evaluate.simps leaf_refs.simps)
       (rule binary_node_refines [where f = "subtract ar"]; (erule (1) "4.IH")?)
next
  case (5 ar c x)
  have run: "seq (evaluate_h ar x) (\<lambda>a. seq (load_operand a) (\<lambda>A.
      seq (lift (scale ar c A)) new_operand)) h = (res, h')"
    using "5.prems"(2) by simp
  have "refines res (and_then (evaluate ar h x) (scale ar c)) (operand_at h')"
  proof (rule unary_node_refines [OF "5.prems"(1) [simplified] _ run])
    fix h res h' assume "leaf_refs x \<subseteq> {..<length h}" "evaluate_h ar x h = (res, h')"
    then show "refines res (evaluate ar h x) (operand_at h')" by (rule "5.IH")
  next
    fix A h1
    assume "seq (lift (scale ar c A)) new_operand h1 = (res, h')"
    then show "refines res (scale ar c A) (operand_at h')"
      by (rule lift_new_operand_refines)
  qed
  then show ?case by simp
next
  case (6 ar m x)
  have m: "m < length h" and refs: "leaf_refs x \<subseteq> {..<length h}"
    using "6.prems"(1) by auto
  have run: "seq (evaluate_h ar x) (\<lambda>a. seq (load_operand a) (\<lambda>A.
      seq (load_jac (MatrixRef m)) (\<lambda>M. seq (lift (matmul ar M A)) new_operand))) h = (res, h')"
    using "6.prems"(2) by simp
  have "refines res (and_then (evaluate ar h x) (\<lambda>a.
       case jac_at h (MatrixRef m) of None \<Rightarrow> Inl BadReference | Some M \<Rightarrow> matmul ar M a))
       (operand_at h')"
  proof (rule unary_node_refines [OF refs _ run])
    fix h res h' assume "leaf_refs x \<subseteq> {..<length h}" "evaluate_h ar x h = (res, h')"
    then show "refines res (evaluate ar h x) (operand_at h')" by (rule "6.IH")
  next
    fix A h1
    assume p: "prefix h h1"
      and k: "seq (load_jac (MatrixRef m)) (\<lambda>M. seq (lift (matmul ar M A)) new_operand) h1 = (res, h')"
    have j: "jac_at h1 (MatrixRef m) = jac_at h (MatrixRef m)"
      using jac_at_prefix_eq [OF p m] .
    show "refines res (case jac_at h (MatrixRef m) of None \<Rightarrow> Inl BadReference
              | Some M \<Rightarrow> matmul ar M A) (operand_at h')"
    proof (cases "jac_at h (MatrixRef m)")
      case None
      with j k show ?thesis
        by (auto simp: seq_def [of "load_jac (MatrixRef m)"] load_jac_none refines_def)
    next
      case (Some M)
      with j k have "seq (lift (matmul ar M A)) new_operand h1 = (res, h')"
        by (simp add: seq_def [of "load_jac (MatrixRef m)"] load_jac_eq)
      then show ?thesis using Some by (simp add: lift_new_operand_refines)
    qed
  qed
  then show ?case by simp
next
  case (7 ar f nm children)
  have run: "seq (evaluate_all_h ar children) (\<lambda>results. call_h f results) h = (res, h')"
    using "7.prems"(2) by simp
  have "refines res (and_then (evaluate_all ar h children) (\<lambda>results. call f results)) (operand_at h')"
  proof (rule seq_refines [OF run, where rd = "\<lambda>h1 rs. those (map (operand_at h1) rs)"])
    fix r h1 assume "evaluate_all_h ar children h = (r, h1)"
    then show "refines r (evaluate_all ar h children) (\<lambda>rs. those (map (operand_at h1) rs))"
      using "7.prems"(1) by (intro "7.IH") auto
  next
    fix rs Rs h1
    assume "those (map (operand_at h1) rs) = Some Rs" "call_h f rs h1 = (res, h')"
    then show "refines res (call f Rs) (operand_at h')"
      by (rule call_h_refines)
  qed
  then show ?case by simp
next
  case (8 ar)
  then show ?case by (auto simp: return_def refines_def)
next
  case (9 ar x xs)
  have run: "seq (evaluate_h ar x) (\<lambda>a. seq (evaluate_all_h ar xs) (\<lambda>as. return (a # as))) h
      = (ress, h')"
    using "9.prems"(2) by simp
  have "refines ress (and_then (evaluate ar h x) (\<lambda>a. and_then (evaluate_all ar h xs)
      (\<lambda>as. Inr (a # as)))) (\<lambda>rs. those (map (operand_at h') rs))"
  proof (rule seq_refines [OF run, where rd = operand_at])
    fix r h1 assume "evaluate_h ar x h = (r, h1)"
    then show "refines r (evaluate ar h x) (operand_at h1)"
      using "9.prems"(1) by (intro "9.IH"(1)) auto
  next
    fix a A h1
    assume x: "evaluate_h ar x h = (Inr a, h1)" and A: "operand_at h1 a = Some A"
      and rest: "seq (evaluate_all_h ar xs) (\<lambda>as. return (a # as)) h1 = (ress, h')"
    have p1: "prefix h h1" using evaluate_h_frame [OF x] .
    have refs1: "leaf_refs_list xs \<subseteq> {..<length h1}"
      using "9.prems"(1) prefix_length [OF p1] by auto
    have eq: "evaluate_all ar h1 xs = evaluate_all ar h xs"
      using "9.prems"(1) by (intro evaluate_all_prefix_eq [OF p1]) auto
    show "refines ress (and_then (evaluate_all ar h xs) (\<lambda>as. Inr (A # as)))
        (\<lambda>rs. those (map (operand_at h') rs))"
    proof (rule seq_refines [OF rest, where rd = "\<lambda>h1 rs. those (map (operand_at h1) rs)"])
      fix r h2 assume "evaluate_all_h ar xs h1 = (r, h2)"
      from "9.IH"(2) [OF refs1 this]
      show "refines r (evaluate_all ar h xs) (\<lambda>rs. those (map (operand_at h2) rs))"
        by (simp add: eq)
    next
      fix rs Rs h2
      assume xs: "evaluate_all_h ar xs h1 = (Inr rs, h2)"
        and Rs: "those (map (operand_at h2) rs) = Some Rs"
        and ret: "return (a # rs) h2 = (ress, h')"
      have "operand_at h2 a = Some A"
        using operand_at_prefix [OF evaluate_all_h_frame [OF xs] A] .
      with Rs ret show "refines ress (Inr (A # Rs)) (\<lambda>rs. those (map (operand_at h') rs))"
        by (auto simp: return_def refines_def)
    qed
  qed
  then show ?case by simp
qed

subsection \<open>Determinism\<close>

text \<open>
  Claim C3. Evaluation is deterministic. Two evaluations of the same operator, the second
  on the store that the first has left (with nothing else changed in between), end
  alike: both raise the same failure, or both return results with the same value and the
  same Jacobian, and the result of the first run is still intact after the second.
  Everything that was in the store before is unchanged. This holds for every tree whose
  leaves point into the store, for any arithmetic of the composite nodes, and includes the
  selection made by \<open>maximum\<close>.
\<close>

theorem evaluate_twice_identical:
  assumes "leaf_refs x \<subseteq> {..<length h}"
    and "evaluate_h ar x h = (res1, h1)" and "evaluate_h ar x h1 = (res2, h2)"
  shows "(case res1 of
            Inl e \<Rightarrow> res2 = Inl e
          | Inr r1 \<Rightarrow>
              (\<exists>r2 R. res2 = Inr r2 \<and> operand_at h1 r1 = Some R \<and> operand_at h2 r2 = Some R
                 \<and> operand_at h2 r1 = Some R))
       \<and> (\<forall>p < length h. h2 ! p = h ! p)"
proof -
  have p1: "prefix h h1" using assms(2) by (rule evaluate_h_frame)
  have p2: "prefix h1 h2" using assms(3) by (rule evaluate_h_frame)
  have refs1: "leaf_refs x \<subseteq> {..<length h1}"
    using assms(1) prefix_length [OF p1] by auto
  have r1: "refines res1 (evaluate ar h x) (operand_at h1)"
    using assms(1,2) by (rule evaluate_h_refines)
  have "refines res2 (evaluate ar h1 x) (operand_at h2)"
    using refs1 assms(3) by (rule evaluate_h_refines)
  then have r2: "refines res2 (evaluate ar h x) (operand_at h2)"
    by (simp add: evaluate_prefix_eq [OF p1 assms(1)])
  have frame: "\<forall>p < length h. h2 ! p = h ! p"
    using prefix_nth [OF p1] prefix_nth [OF p2] prefix_length [OF p1] by auto
  show ?thesis
  proof (cases res1)
    case (Inl e)
    with r1 r2 frame show ?thesis
      by (cases res2) (auto simp: refines_def)
  next
    case (Inr a)
    with r1 r2 frame operand_at_prefix [OF p2] show ?thesis
      by (cases res2) (auto simp: refines_def)
  qed
qed

theorem evaluate_twice_identical_witness:
  "evaluate_h
     \<lparr>add = (\<lambda>a b. Inl DimensionMismatch), subtract = (\<lambda>a b. Inl DimensionMismatch),
      scale = (\<lambda>c a. Inl DimensionMismatch), matmul = (\<lambda>M a. Inl DimensionMismatch)\<rparr>
     (FunctionApply Maximum ''max_function'' [Variable [(0, 0)] 2, Constant (ArrayRef 1)])
     [NdArray float64 [1, - 5], NdArray float64 [0, 0]]
   = (Inr (AdRef \<lparr>val_ref = ArrayRef 5, jac_ref = MatrixRef 6\<rparr>),
      [NdArray float64 [1, - 5], NdArray float64 [0, 0], NdArray float64 [1, - 5],
       SpMatrix CSR \<lparr>ncols = 2, rows = [[1, 0], [0, 1]]\<rparr>,
       SpMatrix CSR \<lparr>ncols = 2, rows = [[0, 0], [0, 0]]\<rparr>, NdArray float64 [1, 0],
       SpMatrix CSR \<lparr>ncols = 2, rows = [[1, 0], [0, 0]]\<rparr>,
       SpMatrix CSR \<lparr>ncols = 2, rows = [[0, 0]]\<rparr>])
   \<and> evaluate_h
     \<lparr>add = (\<lambda>a b. Inl DimensionMismatch), subtract = (\<lambda>a b. Inl DimensionMismatch),
      scale = (\<lambda>c a. Inl DimensionMismatch), matmul = (\<lambda>M a. Inl DimensionMismatch)\<rparr>
     (FunctionApply Maximum ''max_function'' [Variable [(0, 0)] 2, Constant (ArrayRef 1)])
     [NdArray float64 [1, - 5], NdArray float64 [0, 0], NdArray float64 [1, - 5],
       SpMatrix CSR \<lparr>ncols = 2, rows = [[1, 0], [0, 1]]\<rparr>,
       SpMatrix CSR \<lparr>ncols = 2, rows = [[0, 0], [0, 0]]\<rparr>, NdArray float64 [1, 0],
       SpMatrix CSR \<lparr>ncols = 2, rows = [[1, 0], [0, 0]]\<rparr>,
       SpMatrix CSR \<lparr>ncols = 2, rows = [[0, 0]]\<rparr>]
   = (Inr (AdRef \<lparr>val_ref = ArrayRef 11, jac_ref = MatrixRef 12\<rparr>),
      [NdArray float64 [1, - 5], NdArray float64 [0, 0], NdArray float64 [1, - 5],
       SpMatrix CSR \<lparr>ncols = 2, rows = [[1, 0], [0, 1]]\<rparr>,
       SpMatrix CSR \<lparr>ncols = 2, rows = [[0, 0], [0, 0]]\<rparr>, NdArray float64 [1, 0],
       SpMatrix CSR \<lparr>ncols = 2, rows = [[1, 0], [0, 0]]\<rparr>,
       SpMatrix CSR \<lparr>ncols = 2, rows = [[0, 0]]\<rparr>, NdArray float64 [1, - 5],
       SpMatrix CSR \<lparr>ncols = 2, rows = [[1, 0], [0, 1]]\<rparr>,
       SpMatrix CSR \<lparr>ncols = 2, rows = [[0, 0], [0, 0]]\<rparr>, NdArray float64 [1, 0],
       SpMatrix CSR \<lparr>ncols = 2, rows = [[1, 0], [0, 0]]\<rparr>,
       SpMatrix CSR \<lparr>ncols = 2, rows = [[0, 0]]\<rparr>])"
proof -
  let ?ar = "\<lparr>add = (\<lambda>a b. Inl DimensionMismatch), subtract = (\<lambda>a b. Inl DimensionMismatch),
      scale = (\<lambda>c a. Inl DimensionMismatch), matmul = (\<lambda>M a. Inl DimensionMismatch)\<rparr>"
  let ?x = "FunctionApply Maximum ''max_function'' [Variable [(0, 0)] 2, Constant (ArrayRef 1)]"
  let ?h = "[NdArray float64 [1, - 5], NdArray float64 [0, 0]]"
  let ?new = "[NdArray float64 [1, - 5],
       SpMatrix CSR \<lparr>ncols = 2, rows = [[1, 0], [0, 1]]\<rparr>,
       SpMatrix CSR \<lparr>ncols = 2, rows = [[0, 0], [0, 0]]\<rparr>, NdArray float64 [1, 0],
       SpMatrix CSR \<lparr>ncols = 2, rows = [[1, 0], [0, 0]]\<rparr>,
       SpMatrix CSR \<lparr>ncols = 2, rows = [[0, 0]]\<rparr>]"
  have refs: "leaf_refs ?x \<subseteq> {..<length ?h}" by simp
  have run1: "evaluate_h ?ar ?x ?h
      = (Inr (AdRef \<lparr>val_ref = ArrayRef 5, jac_ref = MatrixRef 6\<rparr>), ?h @ ?new)"
    by (simp add: variable_operand_def identity_rows_def new_operand_def new_value_def
        load_value_def maximum_h_def zero_jac_for_h_def load_jac_def new_jac_def csr_matrix_def
        collect_h_def maximum_arrays_h_def get_array_def setitem_def select_jac_h_def tocsr_def
        slice_mat_h_def merge_matrices_h_def prog_defs shape_def ge_inds_def broadcast2_def
        nonzero_def take_inds_def put_inds_def slice_mat_def merge_matrices_def and_then_def
        upt_conv_Cons eval_nat_numeral)
  have run2: "evaluate_h ?ar ?x (?h @ ?new)
      = (Inr (AdRef \<lparr>val_ref = ArrayRef 11, jac_ref = MatrixRef 12\<rparr>), (?h @ ?new) @ ?new)"
    by (simp add: variable_operand_def identity_rows_def new_operand_def new_value_def
        load_value_def maximum_h_def zero_jac_for_h_def load_jac_def new_jac_def csr_matrix_def
        collect_h_def maximum_arrays_h_def get_array_def setitem_def select_jac_h_def tocsr_def
        slice_mat_h_def merge_matrices_h_def prog_defs shape_def ge_inds_def broadcast2_def
        nonzero_def take_inds_def put_inds_def slice_mat_def merge_matrices_def and_then_def
        upt_conv_Cons eval_nat_numeral)
  from evaluate_twice_identical [OF refs run1 run2] run1 run2 show ?thesis
    by simp
qed

subsection \<open>Partial application\<close>

text \<open>
  Claim C8. A wrapped function with a configuration argument bound by partial
  application evaluates, on an operator argument, exactly as the function itself does
  with the configuration value supplied: for one operator argument, for two, and also
  when evaluated on the store. The function is arbitrary; nothing of it is derived anew.
\<close>

theorem partial_function_node:
  "evaluate ar h (call_Function \<lparr>func = Unary (partial f c), name = nm\<rparr> [x])
     = and_then (evaluate ar h x) (\<lambda>a. f c a)
   \<and> evaluate ar h (call_Function \<lparr>func = Binary (partial g c), name = nm\<rparr> [x, y])
     = and_then (evaluate ar h x) (\<lambda>a. and_then (evaluate ar h y) (\<lambda>b. g c a b))
   \<and> (leaf_refs x \<subseteq> {..<length h}
        \<longrightarrow> evaluate_h ar (call_Function \<lparr>func = Unary (partial f c), name = nm\<rparr> [x]) h = (res, h')
        \<longrightarrow> refines res (and_then (evaluate ar h x) (\<lambda>a. f c a)) (operand_at h'))"
proof -
  have 1: "evaluate ar h (call_Function \<lparr>func = Unary (partial f c), name = nm\<rparr> [x])
     = and_then (evaluate ar h x) (\<lambda>a. f c a)"
    by (cases "evaluate ar h x") (simp_all add: call_Function_def partial_def and_then_def)
  have 2: "evaluate ar h (call_Function \<lparr>func = Binary (partial g c), name = nm\<rparr> [x, y])
     = and_then (evaluate ar h x) (\<lambda>a. and_then (evaluate ar h y) (\<lambda>b. g c a b))"
    by (cases "evaluate ar h x"; cases "evaluate ar h y")
       (simp_all add: call_Function_def partial_def and_then_def)
  have 3: "refines res (and_then (evaluate ar h x) (\<lambda>a. f c a)) (operand_at h')"
    if "leaf_refs x \<subseteq> {..<length h}"
      and "evaluate_h ar (call_Function \<lparr>func = Unary (partial f c), name = nm\<rparr> [x]) h = (res, h')"
  proof -
    have "leaf_refs (call_Function \<lparr>func = Unary (partial f c), name = nm\<rparr> [x]) \<subseteq> {..<length h}"
      using that(1) by (simp add: call_Function_def)
    from evaluate_h_refines [OF this that(2)] show ?thesis
      by (simp only: 1)
  qed
  from 1 2 3 show ?thesis by blast
qed

theorem partial_function_node_witness:
  "evaluate
     \<lparr>add = (\<lambda>a b. Inl DimensionMismatch), subtract = (\<lambda>a b. Inl DimensionMismatch),
      scale = (\<lambda>c a. Inl DimensionMismatch), matmul = (\<lambda>M a. Inl DimensionMismatch)\<rparr>
     [NdArray float64 [3, 4, 12]]
     (call_Function
        \<lparr>func = Unary (partial (\<lambda>d a. case a of Plain (Array t xs) \<Rightarrow> Inr (Plain (Array t (take d xs)))
                                          | _ \<Rightarrow> Inl NoAttribute) 2),
         name = ''norm_function''\<rparr>
        [Constant (ArrayRef 0)])
   = Inr (Plain (Array float64 [3, 4]))"
  using partial_function_node [of
      "\<lparr>add = (\<lambda>a b. Inl DimensionMismatch), subtract = (\<lambda>a b. Inl DimensionMismatch),
      scale = (\<lambda>c a. Inl DimensionMismatch), matmul = (\<lambda>M a. Inl DimensionMismatch)\<rparr>"
      "[NdArray float64 [3, 4, 12]]"
      "\<lambda>d a. case a of Plain (Array t xs) \<Rightarrow> Inr (Plain (Array t (take d xs))) | _ \<Rightarrow> Inl NoAttribute"
      2 "''norm_function''" "Constant (ArrayRef 0)"]
  by (simp add: value_at_def and_then_def eval_nat_numeral)


section \<open>Properties of the degree-of-freedom bookkeeping\<close>

subsection \<open>The registered ranges partition the global vector\<close>

lemma in_range_iff: "in_range b i \<longleftrightarrow> i \<in> set (dof_range b)"
  by (auto simp: in_range_def dof_range_def split: prod.splits)

lemma unique_block:
  "distinct (concat xss) \<Longrightarrow> i \<in> set (concat xss) \<Longrightarrow> \<exists>!j. j < length xss \<and> i \<in> set (xss ! j)"
proof (induction xss)
  case Nil
  then show ?case by simp
next
  case (Cons xs xss)
  show ?case
  proof (cases "i \<in> set xs")
    case True
    with Cons.prems have no: "\<And>j. j < length xss \<Longrightarrow> i \<notin> set (xss ! j)"
      by (auto simp: disjoint_iff)
    show ?thesis
    proof (rule ex1I [of _ 0])
      show "0 < length (xs # xss) \<and> i \<in> set ((xs # xss) ! 0)" using True by simp
    next
      fix j assume "j < length (xs # xss) \<and> i \<in> set ((xs # xss) ! j)"
      with no show "j = 0" by (cases j) auto
    qed
  next
    case False
    with Cons.prems have "distinct (concat xss)" "i \<in> set (concat xss)" by auto
    from Cons.IH [OF this] obtain j where j: "j < length xss" "i \<in> set (xss ! j)"
      and uniq: "\<And>j'. j' < length xss \<Longrightarrow> i \<in> set (xss ! j') \<Longrightarrow> j' = j"
      by blast
    show ?thesis
    proof (rule ex1I [of _ "Suc j"])
      show "Suc j < length (xs # xss) \<and> i \<in> set ((xs # xss) ! Suc j)" using j by simp
    next
      fix j' assume a: "j' < length (xs # xss) \<and> i \<in> set ((xs # xss) ! j')"
      with False obtain m where "j' = Suc m" by (cases j') auto
      with a uniq [of m] show "j' = Suc j" by simp
    qed
  qed
qed

lemma concat_ranges_unique:
  assumes "concat (map dof_range bs) = [0..<n]" and "i < n"
  shows "\<exists>!j. j < length bs \<and> in_range (bs ! j) i"
proof -
  have "distinct (concat (map dof_range bs))" "i \<in> set (concat (map dof_range bs))"
    using assms by simp_all
  from unique_block [OF this] show ?thesis
    by (simp add: in_range_iff cong: conj_cong)
qed

lemma concat_ranges_bound:
  assumes "concat (map dof_range bs) = [0..<n]" and "b \<in> set bs" and "in_range b i"
  shows "i < n"
proof -
  from assms(2,3) have "i \<in> set (concat (map dof_range bs))"
    by (auto simp: in_range_iff)
  with assms(1) show ?thesis by simp
qed

lemma register_entity_partitioned:
  assumes "partitioned dm" and "register_entity variable block_shape dm e = Inr dm'"
  shows "partitioned dm'"
proof -
  from assms(2) have new: "(variable, ident e) \<notin> set (map fst (block_dof dm))"
    and dm': "dm' = \<lparr>block_dof =
                  block_dof dm
                  @ [((variable, ident e), (total_dofs dm, block_shape * num_cells e))],
                total_dofs = total_dofs dm + block_shape * num_cells e\<rparr>"
    by (auto simp: register_entity_def split: if_splits)
  have "[0..<total_dofs dm + block_shape * num_cells e]
      = [0..<total_dofs dm] @ [total_dofs dm..<total_dofs dm + block_shape * num_cells e]"
    by (rule upt_add_eq_append) simp
  with assms(1) new show ?thesis
    by (simp add: partitioned_def dm' dof_range_def)
qed

lemma register_entities_partitioned:
  "partitioned dm \<Longrightarrow> register_entities variable block_shape es dm = Inr dm'
     \<Longrightarrow> partitioned dm'"
proof (induction es arbitrary: dm)
  case Nil
  then show ?case by simp
next
  case (Cons e es)
  then show ?case
    by (cases "register_entity variable block_shape dm e")
       (auto simp: and_then_def dest: register_entity_partitioned)
qed

lemma register_all_partitioned:
  "partitioned dm \<Longrightarrow> register_all reqs dm = Inr dm' \<Longrightarrow> partitioned dm'"
proof (induction reqs dm rule: register_all.induct)
  case (1 dm)
  then show ?case by simp
next
  case (2 variable entities block_shape rest dm)
  then show ?case
    by (cases "register dm variable entities block_shape")
       (auto simp: and_then_def register_def dest: register_entities_partitioned)
qed

text \<open>
  Claim C4. After every accepted registration sequence, the ranges of the registered
  pairs of variable and entity, taken in the order of registration, are exactly the
  indices from 0 up to the total number of degrees of freedom: every index below the
  total lies in exactly one range, no range reaches beyond the total, and each pair has one
  range. A range is an offset and a length, hence contiguous.
\<close>

theorem registration_partitions:
  assumes "register_all reqs empty_DofManager = Inr dm"
  shows "concat (map dof_range (layout dm)) = [0..<total_dofs dm]
       \<and> (\<forall>i < total_dofs dm. \<exists>!j. j < length (layout dm) \<and> in_range (layout dm ! j) i)
       \<and> (\<forall>b \<in> set (layout dm). \<forall>i. in_range b i \<longrightarrow> i < total_dofs dm)
       \<and> distinct (map fst (layout dm))"
proof -
  have "partitioned empty_DofManager"
    by (simp add: partitioned_def empty_DofManager_def)
  from register_all_partitioned [OF this assms]
  have p: "concat (map dof_range (layout dm)) = [0..<total_dofs dm]"
    and d: "distinct (map fst (layout dm))"
    by (simp_all add: partitioned_def layout_def)
  have u: "\<forall>i < total_dofs dm. \<exists>!j. j < length (layout dm) \<and> in_range (layout dm ! j) i"
    using concat_ranges_unique [OF p] by blast
  have b: "\<forall>b \<in> set (layout dm). \<forall>i. in_range b i \<longrightarrow> i < total_dofs dm"
    using concat_ranges_bound [OF p] by blast
  from p u b d show ?thesis by simp
qed

theorem registration_partitions_witness:
  "register_all
     [(''pressure'', [\<lparr>ident = 0, num_cells = 3\<rparr>, \<lparr>ident = 1, num_cells = 2\<rparr>], 1),
      (''mortar_flux'', [\<lparr>ident = 2, num_cells = 2\<rparr>], 1)] empty_DofManager
   = Inr \<lparr>block_dof = [((''pressure'', 0), 0, 3), ((''pressure'', 1), 3, 2),
                        ((''mortar_flux'', 2), 5, 2)],
          total_dofs = 7\<rparr>
   \<and> concat (map dof_range [((''pressure'', 0), 0, 3), ((''pressure'', 1), 3, 2),
                        ((''mortar_flux'', 2), 5, 2)]) = [0..<7]"
proof -
  have run: "register_all
     [(''pressure'', [\<lparr>ident = 0, num_cells = 3\<rparr>, \<lparr>ident = 1, num_cells = 2\<rparr>], 1),
      (''mortar_flux'', [\<lparr>ident = 2, num_cells = 2\<rparr>], 1)] empty_DofManager
   = Inr \<lparr>block_dof = [((''pressure'', 0), 0, 3), ((''pressure'', 1), 3, 2),
                        ((''mortar_flux'', 2), 5, 2)],
          total_dofs = 7\<rparr>"
    by (simp add: register_def register_entity_def empty_DofManager_def and_then_def)
  from registration_partitions [OF run] run show ?thesis
    by (simp add: layout_def)
qed

subsection \<open>Missing values\<close>

text \<open>
  When the dictionary of an entity is at hand and has no value for a variable at the
  level asked for (the current iterate, or the stored state), the look-up raises the
  KeyError that carries the name of the variable and the grid, and whatever is returned
  is the stored value.
\<close>

lemma missing_entry_raises_key_error:
  assumes "stored d var_name from_iterate = None"
  shows "get_variable_values (Some d) var_name from_iterate grid
           = Inl (KeyError var_name from_iterate grid)"
  using assms by (simp add: get_variable_values_def)

lemma get_variable_values_returns_stored:
  "get_variable_values data var_name from_iterate grid = Inr v
     \<Longrightarrow> \<exists>d. data = Some d \<and> stored d var_name from_iterate = Some v"
  by (auto simp: get_variable_values_def split: option.splits)


subsection \<open>Distribution of an increment\<close>

lemma distribute_blocks_law:
  assumes "distinct (map fst bs)"
    and "\<forall>k k' r. pl k = Some r \<longrightarrow> pl k' = Some r \<longrightarrow> k = k'"
    and "distribute_blocks pl inc is_add bs h = (Inr u, h')"
  shows "length h' = length h
     \<and> (\<forall>b \<in> set bs. case b of (k, offset, len) \<Rightarrow>
           (\<exists>r t v v'. pl k = Some r \<and> r < length h \<and> h ! r = NdArray t v
              \<and> increment_block is_add (map (astype t float64) v) (take len (drop offset inc)) = Inr v'
              \<and> h' ! r = NdArray float64 v'))
     \<and> (\<forall>p. (\<forall>k \<in> set (map fst bs). pl k \<noteq> Some p) \<longrightarrow> h' ! p = h ! p)"
  using assms
proof (induction bs arbitrary: h)
  case Nil
  then show ?case by (simp add: return_def)
next
  case (Cons b bs)
  obtain k offset len where b: "b = (k, offset, len)" by (cases b)
  from Cons.prems(3) b obtain r where r: "pl k = Some r"
    by (auto simp: raise_def split: option.splits)
  from Cons.prems(3) b r obtain t v where v: "r < length h" "h ! r = NdArray t v"
    by (auto simp: seq_def get_array_def deref_def return_def raise_def
        split: if_splits obj.splits)
  from Cons.prems(3) b r v obtain v'
    where v': "increment_block is_add (map (astype t float64) v) (take len (drop offset inc)) = Inr v'"
    by (cases "increment_block is_add (map (astype t float64) v) (take len (drop offset inc))")
       (auto simp: seq_def get_array_def deref_def return_def raise_def lift_def)
  let ?h1 = "h[r := NdArray float64 v']"
  have rest: "distribute_blocks pl inc is_add bs ?h1 = (Inr u, h')"
    using Cons.prems(3) b r v v'
    by (simp add: seq_def get_array_def deref_def return_def lift_def store_def)
  have d: "distinct (map fst bs)" and knew: "k \<notin> set (map fst bs)"
    using Cons.prems(1) b by auto
  from Cons.IH [OF d Cons.prems(2) rest]
  have len: "length h' = length h"
    and blocks: "\<forall>b \<in> set bs. case b of (k, offset, len) \<Rightarrow>
           (\<exists>r t v v'. pl k = Some r \<and> r < length ?h1 \<and> ?h1 ! r = NdArray t v
              \<and> increment_block is_add (map (astype t float64) v) (take len (drop offset inc)) = Inr v'
              \<and> h' ! r = NdArray float64 v')"
    and others: "\<forall>p. (\<forall>k \<in> set (map fst bs). pl k \<noteq> Some p) \<longrightarrow> h' ! p = ?h1 ! p"
    by simp_all
  have other_r: "\<forall>k' \<in> set (map fst bs). pl k' \<noteq> Some r"
    using Cons.prems(2) r knew by blast
  have here: "h' ! r = NdArray float64 v'"
    using others other_r v(1) by simp
  have later: "\<exists>r2 t2 v2 v2'. pl k2 = Some r2 \<and> r2 < length h \<and> h ! r2 = NdArray t2 v2
              \<and> increment_block is_add (map (astype t2 float64) v2) (take len2 (drop off2 inc)) = Inr v2'
              \<and> h' ! r2 = NdArray float64 v2'"
    if "(k2, off2, len2) \<in> set bs" for k2 off2 len2
  proof -
    from blocks that obtain r2 t2 v2 v2' where x: "pl k2 = Some r2" "r2 < length ?h1"
      "?h1 ! r2 = NdArray t2 v2"
      "increment_block is_add (map (astype t2 float64) v2) (take len2 (drop off2 inc)) = Inr v2'"
      "h' ! r2 = NdArray float64 v2'"
      by fastforce
    from that have "k2 \<in> set (map fst bs)" by force
    with other_r x(1) have "r2 \<noteq> r" by auto
    with x show ?thesis by auto
  qed
  have unch: "h' ! p = h ! p" if "\<forall>k \<in> set (map fst (b # bs)). pl k \<noteq> Some p" for p
  proof -
    from that b r have "p \<noteq> r" and "\<forall>k \<in> set (map fst bs). pl k \<noteq> Some p" by auto
    with others show ?thesis by simp
  qed
  show ?case
    using len b r v v' here later unch by auto
qed

lemma wf_state_valid:
  "wf_state s \<Longrightarrow> places s k = Some r
     \<Longrightarrow> r < length (objects s) \<and> (\<exists>xs. objects s ! r = NdArray float64 xs)"
  unfolding wf_state_def by blast

lemma wf_state_inj:
  "wf_state s \<Longrightarrow> places s k = Some r \<Longrightarrow> places s k' = Some r \<Longrightarrow> k = k'"
  unfolding wf_state_def by blast


lemma distribute_variable_law:
  assumes wf: "wf_state s" and run: "distribute_variable s inc is_add = Inr s'"
  shows "(\<forall>b \<in> set (layout (dofs s)). case b of (k, offset, len) \<Rightarrow>
            (\<exists>v v'. stored_value s k = Some v
               \<and> increment_block is_add v (take len (drop offset inc)) = Inr v'
               \<and> stored_value s' k = Some v'))
       \<and> (\<forall>k. k \<notin> set (map fst (layout (dofs s))) \<longrightarrow> stored_value s' k = stored_value s k)
       \<and> wf_state s'"
proof -
  from run obtain u h' where blocks:
    "distribute_blocks (places s) inc is_add (block_dof (dofs s)) (objects s) = (Inr u, h')"
    and s': "s' = s\<lparr>objects := h'\<rparr>"
    by (auto simp: distribute_variable_def split: if_splits prod.splits sum.splits)
  from wf have d: "distinct (map fst (block_dof (dofs s)))"
    by (simp add: wf_state_def partitioned_def)
  from wf have inj: "\<forall>k k' r. places s k = Some r \<longrightarrow> places s k' = Some r \<longrightarrow> k = k'"
    by (blast dest: wf_state_inj)
  from wf have valid: "\<And>k r. places s k = Some r \<Longrightarrow>
            r < length (objects s) \<and> (\<exists>xs. objects s ! r = NdArray float64 xs)"
    by (rule wf_state_valid)
  from distribute_blocks_law [OF d inj blocks]
  have len: "length h' = length (objects s)"
    and bl: "\<forall>b \<in> set (block_dof (dofs s)). case b of (k, offset, len) \<Rightarrow>
           (\<exists>r t v v'. places s k = Some r \<and> r < length (objects s) \<and> objects s ! r = NdArray t v
              \<and> increment_block is_add (map (astype t float64) v) (take len (drop offset inc)) = Inr v'
              \<and> h' ! r = NdArray float64 v')"
    and others: "\<forall>p. (\<forall>k \<in> set (map fst (block_dof (dofs s))). places s k \<noteq> Some p)
          \<longrightarrow> h' ! p = objects s ! p"
    by simp_all
  have 1: "\<forall>b \<in> set (layout (dofs s)). case b of (k, offset, len) \<Rightarrow>
            (\<exists>v v'. stored_value s k = Some v
               \<and> increment_block is_add v (take len (drop offset inc)) = Inr v'
               \<and> stored_value s' k = Some v')"
  proof
    fix b assume b: "b \<in> set (layout (dofs s))"
    obtain k offset len where kb: "b = (k, offset, len)" by (cases b)
    from bl b kb obtain r t v v' where x: "places s k = Some r" "r < length (objects s)"
      "objects s ! r = NdArray t v"
      "increment_block is_add (map (astype t float64) v) (take len (drop offset inc)) = Inr v'"
      "h' ! r = NdArray float64 v'"
      by (fastforce simp: layout_def)
    from valid [OF x(1)] x(3) have t: "t = float64" by auto
    have "stored_value s k = Some v"
      using x(1,2,3) by (simp add: stored_value_def value_at_def)
    moreover have "stored_value s' k = Some v'"
      using x(1,2,5) len by (simp add: stored_value_def value_at_def s')
    moreover have "increment_block is_add v (take len (drop offset inc)) = Inr v'"
      using x(4) t by simp
    ultimately show "case b of (k, offset, len) \<Rightarrow>
            (\<exists>v v'. stored_value s k = Some v
               \<and> increment_block is_add v (take len (drop offset inc)) = Inr v'
               \<and> stored_value s' k = Some v')"
      using kb by auto
  qed
  have 2: "stored_value s' k = stored_value s k" if "k \<notin> set (map fst (layout (dofs s)))" for k
  proof (cases "places s k")
    case None
    then show ?thesis by (simp add: stored_value_def s')
  next
    case (Some p)
    have "\<forall>k' \<in> set (map fst (block_dof (dofs s))). places s k' \<noteq> Some p"
    proof
      fix k' assume k': "k' \<in> set (map fst (block_dof (dofs s)))"
      show "places s k' \<noteq> Some p"
      proof
        assume "places s k' = Some p"
        with inj Some have "k = k'" by blast
        with k' that show False by (simp add: layout_def)
      qed
    qed
    with others have "h' ! p = objects s ! p" by blast
    with Some len show ?thesis by (simp add: stored_value_def value_at_def s')
  qed
  have 3: "wf_state s'"
    unfolding wf_state_def
  proof (intro conjI allI impI)
    show "partitioned (dofs s')" using wf by (simp add: wf_state_def s')
  next
    fix k k' r assume "places s' k = Some r" "places s' k' = Some r"
    then have "places s k = Some r" "places s k' = Some r" by (simp_all add: s')
    with inj show "k = k'" by blast
  next
    fix k r assume "places s' k = Some r"
    then have r: "places s k = Some r" by (simp add: s')
    from valid [OF r] len show "r < length (objects s')" by (simp add: s')
    show "\<exists>xs. objects s' ! r = NdArray float64 xs"
    proof (cases "k \<in> set (map fst (block_dof (dofs s)))")
      case True
      then obtain offset len where "(k, offset, len) \<in> set (block_dof (dofs s))" by auto
      with bl r show ?thesis by (fastforce simp: s')
    next
      case False
      have "\<forall>k' \<in> set (map fst (block_dof (dofs s))). places s k' \<noteq> Some r"
      proof
        fix k' assume k': "k' \<in> set (map fst (block_dof (dofs s)))"
        show "places s k' \<noteq> Some r"
        proof
          assume "places s k' = Some r"
          with inj r have "k = k'" by blast
          with k' False show False by simp
        qed
      qed
      with others valid [OF r] show ?thesis by (simp add: s')
    qed
  qed
  from 1 2 3 show ?thesis by blast
qed


lemma core_step_wf:
  assumes wf: "wf_state s" and step: "core_step c s = Inr s'"
  shows "wf_state s'"
proof (cases c)
  case (Register variable entities block_shape)
  with step obtain dm where dm: "register (dofs s) variable entities block_shape = Inr dm"
    and s': "s' = s\<lparr>dofs := dm\<rparr>"
    by (auto simp: core_step_def and_then_def split: sum.splits)
  from wf have "partitioned (dofs s)" by (simp add: wf_state_def)
  with dm have "partitioned dm"
    by (auto simp: register_def dest: register_entities_partitioned)
  with wf show ?thesis by (simp add: wf_state_def s')
next
  case (Discretize matrix_key M)
  with step have s': "s' = s\<lparr>cache := (cache s)(matrix_key \<mapsto> length (objects s)),
                 objects := objects s @ [SpMatrix CSR M]\<rparr>"
    by (simp add: core_step_def)
  show ?thesis
    unfolding wf_state_def
  proof (intro conjI allI impI)
    show "partitioned (dofs s')" using wf by (simp add: wf_state_def s')
  next
    fix k k' r assume "places s' k = Some r" "places s' k' = Some r"
    then have "places s k = Some r" "places s k' = Some r" by (simp_all add: s')
    with wf show "k = k'" by (rule wf_state_inj)
  next
    fix k r assume "places s' k = Some r"
    then have "places s k = Some r" by (simp add: s')
    from wf_state_valid [OF wf this]
    show "r < length (objects s')" "\<exists>xs. objects s' ! r = NdArray float64 xs"
      by (auto simp: s' nth_append)
  qed
next
  case (Evaluate ar x)
  with step obtain r h' where run: "evaluate_h ar x (objects s) = (Inr r, h')"
    and s': "s' = s\<lparr>objects := h'\<rparr>"
    by (auto simp: core_step_def split: prod.splits sum.splits)
  have p: "prefix (objects s) h'" using run by (rule evaluate_h_frame)
  show ?thesis
    unfolding wf_state_def
  proof (intro conjI allI impI)
    show "partitioned (dofs s')" using wf by (simp add: wf_state_def s')
  next
    fix k k' r assume "places s' k = Some r" "places s' k' = Some r"
    then have "places s k = Some r" "places s k' = Some r" by (simp_all add: s')
    with wf show "k = k'" by (rule wf_state_inj)
  next
    fix k r assume "places s' k = Some r"
    then have "places s k = Some r" by (simp add: s')
    from wf_state_valid [OF wf this] prefix_length [OF p] prefix_nth [OF p, of r]
    show "r < length (objects s')" "\<exists>xs. objects s' ! r = NdArray float64 xs"
      by (auto simp: s')
  qed
next
  case (Distribute i)
  with step distribute_variable_law [OF wf] show ?thesis
    by (simp add: core_step_def)
qed







end
